theory Spec2Isabelle
  imports Main
begin

section \<open>Conventions\<close>

text \<open>
  The authentication core of blog-api-strapi (\<^verbatim>\<open>src/api/custom-auth\<close>) is embedded as
  pure functions over an explicit store.

  \<^item> The persistent store is a record of tables; a table is the list of its rows in
    insertion order. Every operation takes the store and returns its result together
    with the store it leaves behind, also when it throws.
  \<^item> A thrown \<^verbatim>\<open>Error\<close> is the \<open>Inl\<close> of a sum; the error datatypes name the messages.
  \<^item> Timestamps are integers (milliseconds since the epoch). One call of an operation
    runs at one instant \<open>now\<close>: each of its clock reads (\<^verbatim>\<open>Date.now()\<close>,
    \<^verbatim>\<open>new Date()\<close>) returns that instant.
  \<^item> What the code takes from outside the repository is a parameter: the SHA-256
    digest (\<open>sha256\<close>), the random bytes or code just drawn, the JWT signer, the
    answer of Google's tokeninfo endpoint, and the process environment.
  \<^item> Strings are lists of characters, one \<open>char\<close> per code unit. The one string that
    is read by \<^verbatim>\<open>parseInt\<close>, the configured lifetime of a refresh token, is the list of
    its UTF-16 code units, since the white space \<^verbatim>\<open>parseInt\<close> skips goes beyond the 256
    values of \<open>char\<close>.
\<close>

section \<open>JavaScript helpers\<close>

text \<open>Truthiness of a string that may be \<^verbatim>\<open>undefined\<close>/\<^verbatim>\<open>null\<close>: absent and empty are falsy.\<close>

fun truthy :: "'a list option \<Rightarrow> bool" where
  "truthy None = False"
| "truthy (Some v) = (v \<noteq> [])"

text \<open>\<^verbatim>\<open>a || b\<close> on strings that may be absent.\<close>

definition or_else :: "'a list option \<Rightarrow> 'a list option \<Rightarrow> 'a list option" where
  "or_else a b = (if truthy a then a else b)"

section \<open>The store\<close>

datatype auth_provider = Local | Apple | Google | Email

datatype device_type = Web | Ios | Android

datatype revoked_reason = Logout | Security | Admin_action | Rotated

record role_row =
  role_id :: nat
  role_name :: "string option"
  role_type :: "string option"

record user_row =
  user_id :: nat
  user_email :: string
  username :: string
  auth_provider :: "auth_provider option"
  provider_id :: "string option"
  display_name :: "string option"
  avatar_url :: "string option"
  confirmed :: bool
  blocked :: bool
  user_role :: "nat option"

text \<open>
  A refresh token with its owner: \<open>rt_user\<close> is the \<open>user\<close> relation of the row, which
  the database holds in the link table \<open>refresh_tokens_user_lnk\<close>; the other fields are
  columns of \<open>refresh_tokens\<close>.
\<close>

record refresh_token_row =
  rt_id :: nat
  token_hash :: string
  rt_user :: nat
  rt_device_type :: "device_type option"
  device_info :: "string option"
  ip_address :: "string option"
  expires_at :: int
  last_used_at :: "int option"
  revoked :: bool
  revoked_at :: "int option"
  revoked_reason :: "revoked_reason option"

record otp_row =
  otp_id :: nat
  otp_email :: string
  code_hash :: string
  otp_expires_at :: int
  attempt_count :: int
  used :: bool
  used_at :: "int option"
  otp_created_at :: int

record store =
  users :: "user_row list"
  roles :: "role_row list"
  refresh_tokens :: "refresh_token_row list"
  otp_codes :: "otp_row list"

subsection \<open>Query primitives\<close>

text \<open>
  \<^verbatim>\<open>findOne({ where })\<close> is \<^const>\<open>find\<close>: the first row that matches, \<open>None\<close> for
  \<^verbatim>\<open>null\<close>. \<^verbatim>\<open>updateMany({ where, data })\<close> changes every matching row,
  \<^verbatim>\<open>update({ where, data })\<close> the first one. \<^verbatim>\<open>create\<close> appends a row under a
  primary key above every key of the table.
\<close>

definition updateMany :: "('r \<Rightarrow> bool) \<Rightarrow> ('r \<Rightarrow> 'r) \<Rightarrow> 'r list \<Rightarrow> 'r list" where
  "updateMany wh data rows = map (\<lambda>r. if wh r then data r else r) rows"

text \<open>
  A condition of a where-clause is on a column of the table, or on a relation of it,
  which the database keeps in a link table. \<^const>\<open>updateMany\<close> is the update under
  conditions on columns. An \<^verbatim>\<open>updateMany\<close> whose where-clause reaches through a
  relation needs a join: the query builder then runs the update as a subquery on the ids
  and invokes it without its \<^verbatim>\<open>data\<close>, and the call throws
  (\<^verbatim>\<open>TypeError: Cannot convert undefined or null to object\<close>) before a row is written.
\<close>

datatype 'r condition = Column "'r \<Rightarrow> bool" | Relation "'r \<Rightarrow> bool"

fun holds :: "'r condition \<Rightarrow> 'r \<Rightarrow> bool" where
  "holds (Column p) r = p r"
| "holds (Relation p) r = p r"

fun through_relation :: "'r condition \<Rightarrow> bool" where
  "through_relation (Column p) = False"
| "through_relation (Relation p) = True"

datatype query_error = UpdateWithoutData

definition updateMany_where ::
  "'r condition list \<Rightarrow> ('r \<Rightarrow> 'r) \<Rightarrow> 'r list \<Rightarrow> query_error + 'r list" where
  "updateMany_where wh data rows =
     (if list_ex through_relation wh then Inl UpdateWithoutData
      else Inr (updateMany (\<lambda>r. list_all (\<lambda>c. holds c r) wh) data rows))"

fun update :: "('r \<Rightarrow> bool) \<Rightarrow> ('r \<Rightarrow> 'r) \<Rightarrow> 'r list \<Rightarrow> 'r list" where
  "update wh data [] = []"
| "update wh data (r # rows) = (if wh r then data r # rows else r # update wh data rows)"

definition next_id :: "nat list \<Rightarrow> nat" where
  "next_id ids = Suc (foldr max ids 0)"

text \<open>
  \<^verbatim>\<open>findOne({ where, orderBy: { createdAt: 'desc' } })\<close> on the OTP table: the matching
  row created last (the earliest inserted one among rows created at the same instant).
\<close>

fun newest :: "otp_row \<Rightarrow> otp_row list \<Rightarrow> otp_row" where
  "newest best [] = best"
| "newest best (r # rows) =
     newest (if otp_created_at r > otp_created_at best then r else best) rows"

definition findOne_newest :: "(otp_row \<Rightarrow> bool) \<Rightarrow> otp_row list \<Rightarrow> otp_row option" where
  "findOne_newest wh rows =
     (case filter wh rows of [] \<Rightarrow> None | r # rest \<Rightarrow> Some (newest r rest))"

section \<open>Email one-time passcodes (services/providers/email.ts)\<close>

record email_credentials =
  cred_email :: string
  cred_otp :: string

record email_user_info =
  eu_providerId :: string
  eu_email :: string
  eu_emailVerified :: bool

text \<open>
  The errors \<^verbatim>\<open>validate\<close> throws. \<open>InvalidCode n\<close> is the message
  \<^verbatim>\<open>Invalid code. n attempt(s) remaining.\<close>; \<open>TooManyAttempts\<close> is
  \<^verbatim>\<open>Too many incorrect attempts. Please request a new code.\<close>, thrown at two places.
\<close>

datatype otp_error = NoActiveOtp | CodeExpired | TooManyAttempts | InvalidCode int

definition hashOtp :: "(string \<Rightarrow> string) \<Rightarrow> string \<Rightarrow> string" where
  "hashOtp sha256 otp = sha256 otp"

definition active_otp :: "string \<Rightarrow> otp_row \<Rightarrow> bool" where
  "active_otp email r = (otp_email r = email \<and> \<not> used r)"

definition email_validate ::
  "(string \<Rightarrow> string) \<Rightarrow> int \<Rightarrow> email_credentials \<Rightarrow> store \<Rightarrow>
     (otp_error + email_user_info) \<times> store" where
  "email_validate sha256 now credentials s =
     (let codeHash = hashOtp sha256 (cred_otp credentials) in
      case findOne_newest (active_otp (cred_email credentials)) (otp_codes s) of
        None \<Rightarrow> (Inl NoActiveOtp, s)
      | Some otpRecord \<Rightarrow>
          if now > otp_expires_at otpRecord then (Inl CodeExpired, s)
          else if attempt_count otpRecord \<ge> 3 then (Inl TooManyAttempts, s)
          else if code_hash otpRecord \<noteq> codeHash then
            (let s' = s\<lparr>otp_codes :=
                        update (\<lambda>r. otp_id r = otp_id otpRecord)
                          (\<lambda>r. r\<lparr>attempt_count := attempt_count otpRecord + 1\<rparr>)
                          (otp_codes s)\<rparr>;
                 attemptsRemaining = 3 - (attempt_count otpRecord + 1)
             in (Inl (if attemptsRemaining > 0 then InvalidCode attemptsRemaining
                      else TooManyAttempts), s'))
          else
            (Inr \<lparr>eu_providerId = cred_email credentials,
                  eu_email = cred_email credentials,
                  eu_emailVerified = True\<rparr>,
             s\<lparr>otp_codes :=
                  update (\<lambda>r. otp_id r = otp_id otpRecord)
                    (\<lambda>r. r\<lparr>used := True, used_at := Some now\<rparr>)
                    (otp_codes s)\<rparr>))"

definition generateAndStore ::
  "(string \<Rightarrow> string) \<Rightarrow> string \<Rightarrow> int \<Rightarrow> string \<Rightarrow> store \<Rightarrow> string \<times> store" where
  "generateAndStore sha256 otp now email s =
     (let codeHash = hashOtp sha256 otp;
          expiresAt = now + 10 * 60 * 1000
      in (otp,
          s\<lparr>otp_codes := otp_codes s @
               [\<lparr>otp_id = next_id (map otp_id (otp_codes s)),
                 otp_email = email,
                 code_hash = codeHash,
                 otp_expires_at = expiresAt,
                 attempt_count = 0,
                 used = False,
                 used_at = None,
                 otp_created_at = now\<rparr>]\<rparr>))"

subsection \<open>Runs of the OTP store\<close>

text \<open>
  The row whose \<open>code_hash\<close> a call of \<^verbatim>\<open>validate\<close> compares with the hash of the
  submitted code (email.ts, lines 29 to 52): \<open>None\<close> when the call throws before the
  comparison.
\<close>

definition compared_row :: "int \<Rightarrow> email_credentials \<Rightarrow> store \<Rightarrow> otp_row option" where
  "compared_row now credentials s =
     (case findOne_newest (active_otp (cred_email credentials)) (otp_codes s) of
        None \<Rightarrow> None
      | Some otpRecord \<Rightarrow>
          if now > otp_expires_at otpRecord \<or> attempt_count otpRecord \<ge> 3 then None
          else Some otpRecord)"

text \<open>
  The calls the controller makes on the OTP table: \<open>Verify now credentials\<close> is
  \<^verbatim>\<open>emailVerifyOtp\<close>'s call of \<^verbatim>\<open>validate\<close>, \<open>Request otp now email\<close> is
  \<^verbatim>\<open>emailSendOtp\<close>'s call of \<^verbatim>\<open>generateAndStore\<close>, in which the code \<open>otp\<close> was drawn.
\<close>

datatype otp_call = Verify int email_credentials | Request string int string

fun otp_step :: "(string \<Rightarrow> string) \<Rightarrow> otp_call \<Rightarrow> store \<Rightarrow> store" where
  "otp_step sha256 (Verify now credentials) s = snd (email_validate sha256 now credentials s)"
| "otp_step sha256 (Request otp now email) s = snd (generateAndStore sha256 otp now email s)"

text \<open>A call that compares a wrong code with row \<open>i\<close>, and one that compares the right code.\<close>

fun wrong_guess :: "(string \<Rightarrow> string) \<Rightarrow> nat \<Rightarrow> otp_call \<Rightarrow> store \<Rightarrow> bool" where
  "wrong_guess sha256 i (Verify now credentials) s =
     (case compared_row now credentials s of
        None \<Rightarrow> False
      | Some r \<Rightarrow> otp_id r = i \<and> code_hash r \<noteq> hashOtp sha256 (cred_otp credentials))"
| "wrong_guess sha256 i (Request otp now email) s = False"

fun right_guess :: "(string \<Rightarrow> string) \<Rightarrow> nat \<Rightarrow> otp_call \<Rightarrow> store \<Rightarrow> bool" where
  "right_guess sha256 i (Verify now credentials) s =
     (case compared_row now credentials s of
        None \<Rightarrow> False
      | Some r \<Rightarrow> otp_id r = i \<and> code_hash r = hashOtp sha256 (cred_otp credentials))"
| "right_guess sha256 i (Request otp now email) s = False"

text \<open>How many calls of a run, started in \<open>s\<close>, are wrong guesses at row \<open>i\<close>; how many verify it.\<close>

fun wrong_guesses :: "(string \<Rightarrow> string) \<Rightarrow> nat \<Rightarrow> otp_call list \<Rightarrow> store \<Rightarrow> nat" where
  "wrong_guesses sha256 i [] s = 0"
| "wrong_guesses sha256 i (c # cs) s =
     (if wrong_guess sha256 i c s then 1 else 0) + wrong_guesses sha256 i cs (otp_step sha256 c s)"

fun verifications :: "(string \<Rightarrow> string) \<Rightarrow> nat \<Rightarrow> otp_call list \<Rightarrow> store \<Rightarrow> nat" where
  "verifications sha256 i [] s = 0"
| "verifications sha256 i (c # cs) s =
     (if right_guess sha256 i c s then 1 else 0) + verifications sha256 i cs (otp_step sha256 c s)"

text \<open>
  The wrong guesses row \<open>i\<close> can still take: three for a row not yet created, and
  \<open>3 - attempt_count\<close> for an existing one.
\<close>

definition budget :: "nat \<Rightarrow> otp_row list \<Rightarrow> nat" where
  "budget i rows =
     (case find (\<lambda>x. otp_id x = i) rows of None \<Rightarrow> 3 | Some r \<Rightarrow> nat (3 - attempt_count r))"

section \<open>Token service (TokenService: generate, validate, revoke, rotate)\<close>

subsection \<open>The process environment and number parsing\<close>

text \<open>
  \<^verbatim>\<open>JWT_REFRESH_TOKEN_EXPIRES_DAYS\<close> is held as its UTF-16 code units; \<open>utf16\<close> gives the
  code units of a string of \<open>char\<close>.
\<close>

record process_env =
  JWT_PRIVATE_KEY :: "string option"
  JWT_SECRET :: "string option"
  JWT_ACCESS_TOKEN_EXPIRES_IN :: "string option"
  JWT_REFRESH_TOKEN_EXPIRES_DAYS :: "nat list option"
  ROTATE_REFRESH_TOKENS :: "string option"
  GOOGLE_CLIENT_ID :: "string option"

definition utf16 :: "string \<Rightarrow> nat list" where
  "utf16 str = map of_char str"

text \<open>
  \<^verbatim>\<open>parseInt(str, 10)\<close>: leading white space is skipped, a sign is read, then the
  longest run of decimal digits; \<open>None\<close> is \<^verbatim>\<open>NaN\<close> (no digit). White space is
  ECMAScript's \<^verbatim>\<open>WhiteSpace\<close> and \<^verbatim>\<open>LineTerminator\<close>: tab, line feed, vertical tab, form
  feed, carriage return, space, no-break space U+00A0, U+1680, U+2000 to U+200A, the line
  and paragraph separators U+2028 and U+2029, U+202F, U+205F, U+3000 and the byte order
  mark U+FEFF. The value is the exact integer: a double is exact up to \<open>2^53\<close>, and a
  lifetime that large gives an invalid date below in either reading.
\<close>

definition is_space :: "nat \<Rightarrow> bool" where
  "is_space c =
     (c \<in> set [0x09, 0x0A, 0x0B, 0x0C, 0x0D, 0x20, 0xA0, 0x1680,
                0x2000, 0x2001, 0x2002, 0x2003, 0x2004, 0x2005, 0x2006, 0x2007, 0x2008,
                0x2009, 0x200A, 0x2028, 0x2029, 0x202F, 0x205F, 0x3000, 0xFEFF])"

definition is_digit :: "nat \<Rightarrow> bool" where
  "is_digit c = (of_char CHR ''0'' \<le> c \<and> c \<le> of_char CHR ''9'')"

definition digit_value :: "nat \<Rightarrow> nat" where
  "digit_value c = c - of_char CHR ''0''"

definition digits_value :: "nat list \<Rightarrow> nat" where
  "digits_value ds = foldl (\<lambda>n c. 10 * n + digit_value c) 0 ds"

definition parseInt :: "nat list \<Rightarrow> int option" where
  "parseInt str =
     (let s = dropWhile is_space str;
          negative = (s \<noteq> [] \<and> hd s = of_char CHR ''-'');
          unsigned = (if s \<noteq> [] \<and> (hd s = of_char CHR ''-'' \<or> hd s = of_char CHR ''+'')
                      then tl s else s);
          z = takeWhile is_digit unsigned
      in if z = [] then None
         else Some (if negative then - int (digits_value z) else int (digits_value z)))"

text \<open>
  \<^verbatim>\<open>new Date(value)\<close>: a time value beyond 8.64e15 milliseconds either side of the epoch
  is an invalid date, \<open>None\<close>.
\<close>

definition new_Date :: "int \<Rightarrow> int option" where
  "new_Date v = (if \<bar>v\<bar> \<le> 8640000000000000 then Some v else None)"

text \<open>\<^verbatim>\<open>String(n)\<close> for a non-negative integer: its decimal digits.\<close>

definition digit_char :: "nat \<Rightarrow> char" where
  "digit_char d = ''0123456789'' ! d"

fun string_of_nat :: "nat \<Rightarrow> string" where
  "string_of_nat n =
     (if n < 10 then [digit_char n] else string_of_nat (n div 10) @ [digit_char (n mod 10)])"

declare string_of_nat.simps [simp del]

subsection \<open>Access tokens\<close>

record populated_user =
  pu_user :: user_row
  pu_role :: "role_row option"

datatype jwt_algorithm = HS256 | RS256

record access_token_claims =
  claim_sub :: string
  claim_email :: string
  claim_role :: string
  claim_provider :: string

record sign_options =
  algorithm :: jwt_algorithm
  expiresIn :: string
  issuer :: string
  audience :: string

text \<open>
  \<^verbatim>\<open>jwt.sign(payload, key, options)\<close> of the jsonwebtoken package is a parameter
  \<open>jwt_sign\<close>; \<open>None\<close> is a call that throws (a malformed key or lifetime).
\<close>

type_synonym jwt_signer = "access_token_claims \<Rightarrow> string \<Rightarrow> sign_options \<Rightarrow> string option"

datatype token_error =
    NoSigningKey
  | SigningFailed
  | UniqueViolation
  | InvalidTimestamp

definition provider_name :: "auth_provider \<Rightarrow> string" where
  "provider_name p =
     (case p of Local \<Rightarrow> ''local'' | Apple \<Rightarrow> ''apple'' | Google \<Rightarrow> ''google'' | Email \<Rightarrow> ''email'')"

text \<open>\<^verbatim>\<open>user.role?.type || user.role?.name || 'reader'\<close>\<close>

definition role_claim :: "populated_user \<Rightarrow> string" where
  "role_claim user =
     (case pu_role user of
        None \<Rightarrow> ''reader''
      | Some r \<Rightarrow> the (or_else (or_else (role_type r) (role_name r)) (Some ''reader'')))"

definition access_claims :: "populated_user \<Rightarrow> access_token_claims" where
  "access_claims user =
     \<lparr>claim_sub = string_of_nat (user_id (pu_user user)),
      claim_email = user_email (pu_user user),
      claim_role = role_claim user,
      claim_provider =
        (case auth_provider (pu_user user) of None \<Rightarrow> ''local'' | Some p \<Rightarrow> provider_name p)\<rparr>"

definition generateAccessToken ::
  "jwt_signer \<Rightarrow> process_env \<Rightarrow> populated_user \<Rightarrow> token_error + string" where
  "generateAccessToken jwt_sign env user =
     (let privateKey = JWT_PRIVATE_KEY env;
          expiresIn = the (or_else (JWT_ACCESS_TOKEN_EXPIRES_IN env) (Some ''15m''))
      in if \<not> truthy privateKey then
           (let secret = JWT_SECRET env in
            if \<not> truthy secret then Inl NoSigningKey
            else case jwt_sign (access_claims user) (the secret)
                   \<lparr>algorithm = HS256, expiresIn = expiresIn,
                    issuer = ''blog-platform-api'', audience = ''blog-platform-clients''\<rparr> of
                   None \<Rightarrow> Inl SigningFailed
                 | Some token \<Rightarrow> Inr token)
         else case jwt_sign (access_claims user) (the privateKey)
                \<lparr>algorithm = RS256, expiresIn = expiresIn,
                 issuer = ''blog-platform-api'', audience = ''blog-platform-clients''\<rparr> of
                None \<Rightarrow> Inl SigningFailed
              | Some token \<Rightarrow> Inr token)"

subsection \<open>Version-4 UUIDs\<close>

text \<open>
  \<^verbatim>\<open>uuidv4()\<close> of the uuid package, which is not part of the repository: it draws 16
  random bytes \<open>rnds\<close>, sets the version and the variant
  (\<^verbatim>\<open>rnds[6] = (rnds[6] & 0x0f) | 0x40; rnds[8] = (rnds[8] & 0x3f) | 0x80\<close>), and renders
  the bytes as 32 lower-case hexadecimal digits in groups of 8, 4, 4, 4 and 12. The bytes
  drawn are the parameter.
\<close>

unbundle bit_operations_syntax

definition hex_digit :: "nat \<Rightarrow> char" where
  "hex_digit d = ''0123456789abcdef'' ! d"

definition byte_hex :: "nat \<Rightarrow> string" where
  "byte_hex b = [hex_digit (b div 16), hex_digit (b mod 16)]"

definition unsafeStringify :: "nat list \<Rightarrow> string" where
  "unsafeStringify arr =
     concat (map byte_hex (take 4 arr)) @ ''-'' @
     concat (map byte_hex (take 2 (drop 4 arr))) @ ''-'' @
     concat (map byte_hex (take 2 (drop 6 arr))) @ ''-'' @
     concat (map byte_hex (take 2 (drop 8 arr))) @ ''-'' @
     concat (map byte_hex (take 6 (drop 10 arr)))"

definition uuidv4 :: "nat list \<Rightarrow> string" where
  "uuidv4 rnds =
     unsafeStringify
       (rnds[6 := (rnds ! 6 AND 0x0f) OR 0x40, 8 := (rnds ! 8 AND 0x3f) OR 0x80])"

text \<open>What the random source can return, and the tokens \<^const>\<open>uuidv4\<close> makes of it.\<close>

definition random_bytes :: "nat list set" where
  "random_bytes = {rnds. length rnds = 16 \<and> (\<forall>b\<in>set rnds. b < 256)}"

definition uuid_tokens :: "string set" where
  "uuid_tokens = uuidv4 ` random_bytes"

text \<open>
  Lists bounded position by position, for counting: the bytes of a version-4 UUID that
  are free are 14 whole bytes, four bits of byte 6 and six bits of byte 8.
\<close>

definition bounded :: "nat list \<Rightarrow> nat list set" where
  "bounded bnds = {bs. list_all2 (<) bs bnds}"

definition uuid_bounds :: "nat list" where
  "uuid_bounds = replicate 6 256 @ [16, 256, 64] @ replicate 7 256"

definition reduce :: "nat list \<Rightarrow> nat list" where
  "reduce rnds = rnds[6 := rnds ! 6 mod 16, 8 := rnds ! 8 mod 64]"

subsection \<open>Refresh tokens\<close>

record refresh_token_options =
  deviceType :: "device_type option"
  deviceInfo :: "string option"
  ipAddress :: "string option"

text \<open>
  \<^verbatim>\<open>create\<close> on the refresh-token table. The schema document of the repository declares
  \<open>token_hash\<close> UNIQUE and \<open>expires_at\<close> NOT NULL: a row whose hash is already in the
  table, or whose expiry is an invalid date, is rejected and the call throws.
\<close>

definition create_refresh_token ::
  "string \<Rightarrow> nat \<Rightarrow> refresh_token_options \<Rightarrow> int option \<Rightarrow> int \<Rightarrow> store \<Rightarrow>
     (token_error + unit) \<times> store" where
  "create_refresh_token tokenHash user options expiresAt lastUsedAt s =
     (case expiresAt of
        None \<Rightarrow> (Inl InvalidTimestamp, s)
      | Some e \<Rightarrow>
          if tokenHash \<in> set (map token_hash (refresh_tokens s)) then (Inl UniqueViolation, s)
          else (Inr (),
                s\<lparr>refresh_tokens := refresh_tokens s @
                     [\<lparr>rt_id = next_id (map rt_id (refresh_tokens s)),
                       token_hash = tokenHash,
                       rt_user = user,
                       rt_device_type = deviceType options,
                       device_info = deviceInfo options,
                       ip_address = ipAddress options,
                       expires_at = e,
                       last_used_at = Some lastUsedAt,
                       revoked = False,
                       revoked_at = None,
                       revoked_reason = None\<rparr>]\<rparr>))"

text \<open>
  \<open>rnds\<close> are the random bytes \<^verbatim>\<open>uuidv4()\<close> draws in this call. \<open>None\<close> from
  \<^const>\<open>parseInt\<close> makes the expiry an invalid date.
\<close>

definition expiryDays :: "process_env \<Rightarrow> int option" where
  "expiryDays env =
     parseInt (the (or_else (JWT_REFRESH_TOKEN_EXPIRES_DAYS env) (Some (utf16 ''7''))))"

definition generateRefreshToken ::
  "(string \<Rightarrow> string) \<Rightarrow> process_env \<Rightarrow> nat list \<Rightarrow> int \<Rightarrow> populated_user \<Rightarrow>
     refresh_token_options \<Rightarrow> store \<Rightarrow> (token_error + string) \<times> store" where
  "generateRefreshToken sha256 env rnds now user options s =
     (let rawToken = uuidv4 rnds;
          tokenHash = sha256 rawToken;
          expiresAt = (case expiryDays env of
                         None \<Rightarrow> None
                       | Some days \<Rightarrow> new_Date (now + days * 24 * 60 * 60 * 1000))
      in case create_refresh_token tokenHash (user_id (pu_user user)) options expiresAt now s of
           (Inl e, s') \<Rightarrow> (Inl e, s')
         | (Inr _, s') \<Rightarrow> (Inr rawToken, s'))"

text \<open>The row with its owner populated (\<^verbatim>\<open>populate: ['user']\<close>); \<open>None\<close> is a missing owner.\<close>

record populated_refresh_token =
  rt_row :: refresh_token_row
  rt_owner :: "user_row option"

definition validateRefreshToken ::
  "(string \<Rightarrow> string) \<Rightarrow> int \<Rightarrow> string \<Rightarrow> store \<Rightarrow> populated_refresh_token option \<times> store" where
  "validateRefreshToken sha256 now rawToken s =
     (let tokenHash = sha256 rawToken in
      case find (\<lambda>r. token_hash r = tokenHash) (refresh_tokens s) of
        None \<Rightarrow> (None, s)
      | Some record \<Rightarrow>
          if revoked record then (None, s)
          else if now > expires_at record then (None, s)
          else (Some \<lparr>rt_row = record,
                      rt_owner = find (\<lambda>u. user_id u = rt_user record) (users s)\<rparr>, s))"

definition revokeRefreshToken ::
  "(string \<Rightarrow> string) \<Rightarrow> int \<Rightarrow> string \<Rightarrow> revoked_reason \<Rightarrow> store \<Rightarrow> unit \<times> store" where
  "revokeRefreshToken sha256 now rawToken reason s =
     (let tokenHash = sha256 rawToken in
      ((), s\<lparr>refresh_tokens :=
               updateMany (\<lambda>r. token_hash r = tokenHash)
                 (\<lambda>r. r\<lparr>revoked := True, revoked_at := Some now, revoked_reason := Some reason\<rparr>)
                 (refresh_tokens s)\<rparr>))"

text \<open>
  \<^verbatim>\<open>where: { user: userId, revoked: false }\<close>: \<open>user\<close> is the relation to the owner
  (\<open>rt_user\<close> is the row's link), \<open>revoked\<close> a column.
\<close>

definition revokeAllUserRefreshTokens ::
  "int \<Rightarrow> nat \<Rightarrow> store \<Rightarrow> (query_error + unit) \<times> store" where
  "revokeAllUserRefreshTokens now userId s =
     (case updateMany_where
             [Relation (\<lambda>r. rt_user r = userId), Column (\<lambda>r. revoked r = False)]
             (\<lambda>r. r\<lparr>revoked := True, revoked_at := Some now, revoked_reason := Some Logout\<rparr>)
             (refresh_tokens s) of
        Inl e \<Rightarrow> (Inl e, s)
      | Inr rows \<Rightarrow> (Inr (), s\<lparr>refresh_tokens := rows\<rparr>))"

definition rotateRefreshToken ::
  "(string \<Rightarrow> string) \<Rightarrow> process_env \<Rightarrow> nat list \<Rightarrow> int \<Rightarrow> string \<Rightarrow> populated_user \<Rightarrow>
     refresh_token_options \<Rightarrow> store \<Rightarrow> (token_error + string) \<times> store" where
  "rotateRefreshToken sha256 env rnds now oldRawToken user options s =
     (case revokeRefreshToken sha256 now oldRawToken Rotated s of
        (_, s1) \<Rightarrow> generateRefreshToken sha256 env rnds now user options s1)"

subsection \<open>Runs of the refresh-token table\<close>

text \<open>
  The writes the controller makes to the refresh-token table: a login issues a token,
  \<^verbatim>\<open>refresh\<close> rotates it or touches \<open>last_used_at\<close> of the row it validated, \<^verbatim>\<open>logout\<close>
  revokes one token and \<^verbatim>\<open>logoutAll\<close> all tokens of a user.
\<close>

datatype token_call =
    Issue "nat list" int populated_user refresh_token_options
  | Revoke string revoked_reason int
  | RevokeAll nat int
  | Rotate "nat list" int string populated_user refresh_token_options
  | Touch nat int

fun token_step :: "(string \<Rightarrow> string) \<Rightarrow> process_env \<Rightarrow> token_call \<Rightarrow> store \<Rightarrow> store" where
  "token_step sha256 env (Issue rnds now user options) s =
     snd (generateRefreshToken sha256 env rnds now user options s)"
| "token_step sha256 env (Revoke rawToken reason now) s =
     snd (revokeRefreshToken sha256 now rawToken reason s)"
| "token_step sha256 env (RevokeAll userId now) s =
     snd (revokeAllUserRefreshTokens now userId s)"
| "token_step sha256 env (Rotate rnds now oldRawToken user options) s =
     snd (rotateRefreshToken sha256 env rnds now oldRawToken user options s)"
| "token_step sha256 env (Touch i now) s =
     s\<lparr>refresh_tokens :=
         update (\<lambda>r. rt_id r = i) (\<lambda>r. r\<lparr>last_used_at := Some now\<rparr>) (refresh_tokens s)\<rparr>"

fun token_run :: "(string \<Rightarrow> string) \<Rightarrow> process_env \<Rightarrow> token_call list \<Rightarrow> store \<Rightarrow> store" where
  "token_run sha256 env [] s = s"
| "token_run sha256 env (c # cs) s = token_run sha256 env cs (token_step sha256 env c s)"

text \<open>
  A token hash is superseded in a store when the table has a row under it and every
  row under it is revoked.
\<close>

definition superseded :: "string \<Rightarrow> store \<Rightarrow> bool" where
  "superseded h s =
     (list_ex (\<lambda>r. token_hash r = h) (refresh_tokens s) \<and>
      list_all (\<lambda>r. token_hash r = h \<longrightarrow> revoked r) (refresh_tokens s))"

section \<open>Google adapter (services/providers/google.ts)\<close>

datatype json_value = JBool bool | JString string | JNull

text \<open>
  The claims Google's tokeninfo endpoint answers with. \<open>gc_exp\<close> is
  \<^verbatim>\<open>Number(claims.exp)\<close>, a whole number of seconds as Google issues it; \<open>None\<close> is
  \<^verbatim>\<open>NaN\<close> (the claim absent or not numeric). An absent string claim is \<open>None\<close>.
\<close>

record google_claims =
  gc_aud :: "string option"
  gc_iss :: "string option"
  gc_exp :: "int option"
  gc_sub :: string
  gc_email :: string
  gc_name :: "string option"
  gc_picture :: "string option"
  gc_email_verified :: json_value

record google_credentials =
  gcred_idToken :: string
  gcred_platform :: device_type

record google_response =
  resp_ok :: bool
  resp_json :: google_claims

record google_user_info =
  gu_providerId :: string
  gu_email :: string
  gu_name :: "string option"
  gu_picture :: "string option"
  gu_emailVerified :: bool

datatype google_error = InvalidGoogleIdToken | AudienceMismatch | InvalidIssuer | GoogleTokenExpired

text \<open>
  \<open>tokeninfo\<close> is the endpoint: the response to the request for an identity token.
  \<^verbatim>\<open>Date.now() / 1000 > Number(claims.exp)\<close> is decided on whole milliseconds; a
  comparison with \<^verbatim>\<open>NaN\<close> is false.
\<close>

definition google_validate ::
  "(string \<Rightarrow> google_response) \<Rightarrow> process_env \<Rightarrow> int \<Rightarrow> google_credentials \<Rightarrow>
     google_error + google_user_info" where
  "google_validate tokeninfo env now credentials =
     (let response = tokeninfo (gcred_idToken credentials) in
      if \<not> resp_ok response then Inl InvalidGoogleIdToken
      else
        let claims = resp_json response;
            clientId = GOOGLE_CLIENT_ID env
        in if truthy clientId \<and> gc_aud claims \<noteq> clientId then Inl AudienceMismatch
           else if gc_iss claims \<notin> {Some ''accounts.google.com'', Some ''https://accounts.google.com''}
             then Inl InvalidIssuer
           else if (case gc_exp claims of None \<Rightarrow> False | Some e \<Rightarrow> now > e * 1000)
             then Inl GoogleTokenExpired
           else Inr \<lparr>gu_providerId = gc_sub claims,
                     gu_email = gc_email claims,
                     gu_name = gc_name claims,
                     gu_picture = gc_picture claims,
                     gu_emailVerified =
                       (gc_email_verified claims = JBool True \<or>
                        gc_email_verified claims = JString ''true'')\<rparr>)"

section \<open>Identity resolution (controllers/auth.ts: findOrCreateUser)\<close>

record find_or_create_user_options =
  opt_email :: string
  opt_authProvider :: auth_provider
  opt_providerId :: string
  opt_displayName :: "string option"
  opt_avatarUrl :: "string option"
  opt_confirmed :: "bool option"

text \<open>\<^verbatim>\<open>email.split('@')[0].replace(/[^a-zA-Z0-9_]/g, '_')\<close>\<close>

definition is_word_char :: "char \<Rightarrow> bool" where
  "is_word_char c =
     (let n = (of_char c :: nat)
      in (97 \<le> n \<and> n \<le> 122) \<or> (65 \<le> n \<and> n \<le> 90) \<or> (48 \<le> n \<and> n \<le> 57) \<or> n = 95)"

definition username_base :: "string \<Rightarrow> string" where
  "username_base email =
     map (\<lambda>c. if is_word_char c then c else CHR ''_'') (takeWhile (\<lambda>c. c \<noteq> CHR ''@'') email)"

text \<open>The template \<^verbatim>\<open>`${base}_${attempt}`\<close>.\<close>

definition suffixed :: "string \<Rightarrow> nat \<Rightarrow> string" where
  "suffixed base attempt = base @ ''_'' @ string_of_nat attempt"

subsection \<open>The username loop\<close>

text \<open>
  \<^verbatim>\<open>generateUniqueUsername\<close> tries \<open>base\<close>, then \<open>base_1\<close>, \<open>base_2\<close>, ... until no user
  has the name. The loop ends because the decimal rendering is injective, so only
  finitely many of the candidates are taken.
\<close>

lemma digit_value_digit_char: "d < 10 \<Longrightarrow> digit_value (of_char (digit_char d)) = d"
proof -
  assume "d < 10"
  then have "d = 0 \<or> d = 1 \<or> d = 2 \<or> d = 3 \<or> d = 4 \<or> d = 5 \<or> d = 6 \<or> d = 7
    \<or> d = 8 \<or> d = 9" by arith
  then show ?thesis
    by (elim disjE) (simp_all add: digit_value_def digit_char_def)
qed

lemma digits_value_snoc: "digits_value (ds @ [c]) = 10 * digits_value ds + digit_value c"
  by (simp add: digits_value_def)

lemma digits_value_string_of_nat: "digits_value (utf16 (string_of_nat n)) = n"
proof (induction n rule: string_of_nat.induct)
  case (1 n)
  show ?case
  proof (cases "n < 10")
    case True
    then show ?thesis
      by (subst string_of_nat.simps)
         (simp add: utf16_def digits_value_def digit_value_digit_char)
  next
    case False
    with 1 have "digits_value (utf16 (string_of_nat (n div 10))) = n div 10" by simp
    moreover have "utf16 (string_of_nat (n div 10) @ [digit_char (n mod 10)])
        = utf16 (string_of_nat (n div 10)) @ [of_char (digit_char (n mod 10))]"
      by (simp add: utf16_def)
    ultimately show ?thesis
      using False
      by (subst string_of_nat.simps) (simp add: digits_value_snoc digit_value_digit_char)
  qed
qed

lemma inj_string_of_nat: "inj string_of_nat"
  by (rule inj_on_inverseI [where g = "\<lambda>str. digits_value (utf16 str)"])
     (rule digits_value_string_of_nat)

lemma inj_suffixed: "inj (suffixed base)"
  using inj_string_of_nat by (auto simp: inj_def suffixed_def)

lemma finite_taken_names:
  "finite {k. attempt < k \<and> suffixed base k \<in> names}" if "finite names"
proof -
  have "{k. attempt < k \<and> suffixed base k \<in> names} \<subseteq> suffixed base -` names" by auto
  moreover have "finite (suffixed base -` names)"
    by (rule finite_vimageI [OF that inj_suffixed])
  ultimately show ?thesis by (rule finite_subset)
qed

text \<open>The body of \<^verbatim>\<open>while (true)\<close>, with the loop variables \<^verbatim>\<open>username\<close> and \<^verbatim>\<open>attempt\<close>.\<close>

function generateUniqueUsername_loop :: "user_row list \<Rightarrow> string \<Rightarrow> string \<Rightarrow> nat \<Rightarrow> string" where
  "generateUniqueUsername_loop rows base candidate attempt =
     (if find (\<lambda>u. username u = candidate) rows = None then candidate
      else generateUniqueUsername_loop rows base (suffixed base (attempt + 1)) (attempt + 1))"
  by pat_completeness auto

termination
proof (relation "measure (\<lambda>(rows, base, candidate, attempt).
          card {k. attempt < k \<and> suffixed base k \<in> username ` set rows}
          + (if candidate \<in> username ` set rows then 1 else 0))")
  show "wf (measure (\<lambda>(rows, base, candidate, attempt).
          card {k. attempt < k \<and> suffixed base k \<in> username ` set rows}
          + (if candidate \<in> username ` set rows then 1 else 0)))" by simp
next
  fix rows :: "user_row list" and base candidate :: string and attempt :: nat
  assume "find (\<lambda>u. username u = candidate) rows \<noteq> None"
  then have taken: "candidate \<in> username ` set rows"
    by (auto simp: find_None_iff)
  let ?A = "\<lambda>a. {k. a < k \<and> suffixed base k \<in> username ` set rows}"
  have fin: "finite (?A attempt)" by (rule finite_taken_names) simp
  have split: "?A attempt =
      (if suffixed base (attempt + 1) \<in> username ` set rows then {attempt + 1} else {}) \<union> ?A (attempt + 1)"
  proof (intro set_eqI iffI)
    fix k assume k: "k \<in> ?A attempt"
    show "k \<in> (if suffixed base (attempt + 1) \<in> username ` set rows then {attempt + 1} else {}) \<union> ?A (attempt + 1)"
    proof (cases "k = attempt + 1")
      case True
      with k show ?thesis by simp
    next
      case False
      with k have "attempt + 1 < k" by simp
      with k show ?thesis by simp
    qed
  next
    fix k assume "k \<in> (if suffixed base (attempt + 1) \<in> username ` set rows then {attempt + 1} else {}) \<union> ?A (attempt + 1)"
    then show "k \<in> ?A attempt" by (auto split: if_splits)
  qed
  have "card (?A (attempt + 1)) + (if suffixed base (attempt + 1) \<in> username ` set rows then 1 else 0)
         = card (?A attempt)"
  proof (cases "suffixed base (attempt + 1) \<in> username ` set rows")
    case True
    have "attempt + 1 \<notin> ?A (attempt + 1)" by simp
    moreover have "finite (?A (attempt + 1))" by (rule finite_taken_names) simp
    ultimately have "card (insert (attempt + 1) (?A (attempt + 1))) = Suc (card (?A (attempt + 1)))"
      by (rule_tac card_insert_disjoint)
    with True split show ?thesis by simp
  next
    case False
    with split show ?thesis by simp
  qed
  with taken
  show "((rows, base, suffixed base (attempt + 1), attempt + 1), (rows, base, candidate, attempt))
      \<in> measure (\<lambda>(rows, base, candidate, attempt).
          card {k. attempt < k \<and> suffixed base k \<in> username ` set rows}
          + (if candidate \<in> username ` set rows then 1 else 0))"
    by simp
qed

declare generateUniqueUsername_loop.simps [simp del]

definition generateUniqueUsername :: "store \<Rightarrow> string \<Rightarrow> string" where
  "generateUniqueUsername s email =
     (let base = username_base email
      in generateUniqueUsername_loop (users s) base base 0)"

subsection \<open>findOrCreateUser\<close>

text \<open>
  The populated user (\<^verbatim>\<open>populate: ['role']\<close>): the row with the role its \<open>user_role\<close>
  points to.
\<close>

definition populate_role :: "store \<Rightarrow> user_row \<Rightarrow> populated_user" where
  "populate_role s u =
     \<lparr>pu_user = u,
      pu_role = (case user_role u of
                   None \<Rightarrow> None
                 | Some rid \<Rightarrow> find (\<lambda>r. role_id r = rid) (roles s))\<rparr>"

text \<open>
  The two lookups: \<^verbatim>\<open>where: { auth_provider: authProvider, provider_id: providerId }\<close> and
  \<^verbatim>\<open>where: { email }\<close>.
\<close>

definition where_provider :: "find_or_create_user_options \<Rightarrow> user_row \<Rightarrow> bool" where
  "where_provider options u =
     (auth_provider u = Some (opt_authProvider options) \<and>
      provider_id u = Some (opt_providerId options))"

definition where_email :: "find_or_create_user_options \<Rightarrow> user_row \<Rightarrow> bool" where
  "where_email options u = (user_email u = opt_email options)"

text \<open>The row \<^verbatim>\<open>create\<close> inserts, and the \<^verbatim>\<open>data\<close> of the \<^verbatim>\<open>update\<close> of an existing user.\<close>

definition created_user :: "find_or_create_user_options \<Rightarrow> store \<Rightarrow> user_row" where
  "created_user options s =
     \<lparr>user_id = next_id (map user_id (users s)),
      user_email = opt_email options,
      username = generateUniqueUsername s (opt_email options),
      auth_provider = Some (opt_authProvider options),
      provider_id = Some (opt_providerId options),
      display_name = opt_displayName options,
      avatar_url = opt_avatarUrl options,
      confirmed = (case opt_confirmed options of None \<Rightarrow> True | Some c \<Rightarrow> c),
      blocked = False,
      user_role =
        map_option role_id (find (\<lambda>r. role_type r = Some ''authenticated'') (roles s))\<rparr>"

definition login_data :: "find_or_create_user_options \<Rightarrow> user_row \<Rightarrow> user_row \<Rightarrow> user_row" where
  "login_data options user u =
     u\<lparr>auth_provider := Some (opt_authProvider options),
       provider_id := Some (opt_providerId options),
       display_name :=
         (if truthy (opt_displayName options) \<and> \<not> truthy (display_name user)
          then opt_displayName options else display_name u),
       avatar_url :=
         (if truthy (opt_avatarUrl options) then opt_avatarUrl options else avatar_url u)\<rparr>"

text \<open>
  \<^verbatim>\<open>update\<close> returns the row it changed; user ids are the primary key, so that is the
  row found.
\<close>

definition findOrCreateUser :: "find_or_create_user_options \<Rightarrow> store \<Rightarrow> populated_user \<times> store" where
  "findOrCreateUser options s =
     (let found = (case find (where_provider options) (users s) of
                     None \<Rightarrow> find (where_email options) (users s)
                   | Some u \<Rightarrow> Some u)
      in case found of
           None \<Rightarrow>
             (let created = created_user options s
              in (populate_role s created, s\<lparr>users := users s @ [created]\<rparr>))
         | Some user \<Rightarrow>
             (let s' = s\<lparr>users := update (\<lambda>u. user_id u = user_id user)
                                   (login_data options user) (users s)\<rparr>
              in (populate_role s' (login_data options user user), s')))"

text \<open>The user the two lookups of \<^const>\<open>findOrCreateUser\<close> arrive at, if any.\<close>

definition found_user :: "find_or_create_user_options \<Rightarrow> store \<Rightarrow> user_row option" where
  "found_user options s =
     (case find (where_provider options) (users s) of
        None \<Rightarrow> find (where_email options) (users s)
      | Some u \<Rightarrow> Some u)"

section \<open>The refresh handler (controllers/auth.ts: refresh)\<close>

text \<open>
  What the handler answers: \<^verbatim>\<open>ctx.unauthorized(message)\<close>, or \<^verbatim>\<open>ctx.send\<close> of the body
  \<^verbatim>\<open>{ accessToken, expiresIn: 900, refreshToken? }\<close>; and the refresh-token cookie it
  sets, if any.
\<close>

datatype refresh_response = Unauthorized string | Sent string "string option"

record refresh_outcome =
  response :: refresh_response
  set_cookie :: "string option"

definition refused :: "string \<Rightarrow> refresh_outcome" where
  "refused message = \<lparr>response = Unauthorized message, set_cookie = None\<rparr>"

text \<open>
  \<open>cookie\<close> is \<^verbatim>\<open>ctx.cookies.get('refreshToken')\<close>, \<open>bodyToken\<close> is
  \<^verbatim>\<open>ctx.request.body?.refreshToken\<close>, \<open>ip\<close> is \<^verbatim>\<open>ctx.request.ip\<close>, and \<open>rnds\<close> are the
  random bytes \<^verbatim>\<open>uuidv4()\<close> draws if the handler rotates. Whatever throws inside \<^verbatim>\<open>try\<close>
  (reading \<^verbatim>\<open>record.user.id\<close> of a row without owner, signing, the rotation) ends
  in \<^verbatim>\<open>Token refresh failed\<close>, with the store as the throw left it.
\<close>

definition refresh ::
  "(string \<Rightarrow> string) \<Rightarrow> jwt_signer \<Rightarrow> process_env \<Rightarrow> nat list \<Rightarrow> int \<Rightarrow>
     string option \<Rightarrow> string option \<Rightarrow> string option \<Rightarrow> store \<Rightarrow> refresh_outcome \<times> store" where
  "refresh sha256 jwt_sign env rnds now cookie bodyToken ip s =
     (let rawToken = or_else cookie bodyToken in
      if \<not> truthy rawToken then (refused ''No refresh token provided'', s)
      else
        case validateRefreshToken sha256 now (the rawToken) s of
          (None, s1) \<Rightarrow> (refused ''Invalid or expired refresh token'', s1)
        | (Some record, s1) \<Rightarrow>
            (case rt_owner record of
               None \<Rightarrow> (refused ''Token refresh failed'', s1)
             | Some owner \<Rightarrow>
                 (case find (\<lambda>u. user_id u = user_id owner) (users s1) of
                    None \<Rightarrow> (refused ''User not found'', s1)
                  | Some u \<Rightarrow>
                      (let user = populate_role s1 u in
                       case generateAccessToken jwt_sign env user of
                         Inl _ \<Rightarrow> (refused ''Token refresh failed'', s1)
                       | Inr accessToken \<Rightarrow>
                           (let shouldRotate = (ROTATE_REFRESH_TOKENS env = Some ''true'') in
                            if shouldRotate then
                              (case rotateRefreshToken sha256 env rnds now (the rawToken) user
                                      \<lparr>deviceType = rt_device_type (rt_row record),
                                       deviceInfo = device_info (rt_row record),
                                       ipAddress = ip\<rparr> s1 of
                                 (Inl _, s2) \<Rightarrow> (refused ''Token refresh failed'', s2)
                               | (Inr newRefreshToken, s2) \<Rightarrow>
                                   if truthy (Some newRefreshToken)
                                   then (\<lparr>response = Sent accessToken (Some newRefreshToken),
                                          set_cookie = Some newRefreshToken\<rparr>, s2)
                                   else (\<lparr>response = Sent accessToken None,
                                          set_cookie = None\<rparr>, s2))
                            else
                              (\<lparr>response = Sent accessToken None, set_cookie = None\<rparr>,
                               s1\<lparr>refresh_tokens :=
                                    update (\<lambda>r. rt_id r = rt_id (rt_row record))
                                      (\<lambda>r. r\<lparr>last_used_at := Some now\<rparr>)
                                      (refresh_tokens s1)\<rparr>))))))"

subsection \<open>A one-row OTP table\<close>

definition otp_row_example :: otp_row where
  "otp_row_example =
     \<lparr>otp_id = 1, otp_email = ''a@example.com'', code_hash = ''123456'',
      otp_expires_at = 600000, attempt_count = 0, used = False, used_at = None,
      otp_created_at = 0\<rparr>"

definition otp_store_example :: "int \<Rightarrow> store" where
  "otp_store_example n =
     \<lparr>users = [], roles = [], refresh_tokens = [],
      otp_codes = [otp_row_example\<lparr>attempt_count := n\<rparr>]\<rparr>"

definition guess :: "string \<Rightarrow> email_credentials" where
  "guess code = \<lparr>cred_email = ''a@example.com'', cred_otp = code\<rparr>"

definition otp_row_used :: otp_row where
  "otp_row_used = otp_row_example\<lparr>used := True, used_at := Some 1000\<rparr>"

definition otp_store_used :: store where
  "otp_store_used = \<lparr>users = [], roles = [], refresh_tokens = [], otp_codes = [otp_row_used]\<rparr>"

subsection \<open>A refresh-token table with two users\<close>

definition user_example :: "nat \<Rightarrow> string \<Rightarrow> user_row" where
  "user_example i email =
     \<lparr>user_id = i, user_email = email, username = takeWhile (\<lambda>c. c \<noteq> CHR ''@'') email,
      auth_provider = Some Email, provider_id = Some email, display_name = None,
      avatar_url = None, confirmed = True, blocked = False, user_role = None\<rparr>"

definition token_row_example :: "nat \<Rightarrow> string \<Rightarrow> nat \<Rightarrow> refresh_token_row" where
  "token_row_example i h u =
     \<lparr>rt_id = i, token_hash = h, rt_user = u, rt_device_type = Some Ios, device_info = None,
      ip_address = None, expires_at = 604800000, last_used_at = Some 0, revoked = False,
      revoked_at = None, revoked_reason = None\<rparr>"

definition token_store_example :: store where
  "token_store_example =
     \<lparr>users = [user_example 1 ''u@example.com'', user_example 2 ''v@example.com''],
      roles = [],
      refresh_tokens =
        [token_row_example 1 ''T1'' 1,
         token_row_example 2 ''T2'' 2,
         (token_row_example 3 ''T3'' 1)
           \<lparr>revoked := True, revoked_at := Some 5, revoked_reason := Some Security\<rparr>],
      otp_codes = []\<rparr>"

definition env_example :: "string option \<Rightarrow> string option \<Rightarrow> process_env" where
  "env_example days rot =
     \<lparr>JWT_PRIVATE_KEY = None, JWT_SECRET = Some ''secret'',
      JWT_ACCESS_TOKEN_EXPIRES_IN = None, JWT_REFRESH_TOKEN_EXPIRES_DAYS = map_option utf16 days,
      ROTATE_REFRESH_TOKENS = rot, GOOGLE_CLIENT_ID = None\<rparr>"

definition ios_options :: refresh_token_options where
  "ios_options = \<lparr>deviceType = Some Ios, deviceInfo = Some ''app/1.0'', ipAddress = Some ''10.0.0.1''\<rparr>"

definition owner_example :: populated_user where
  "owner_example = \<lparr>pu_user = user_example 1 ''u@example.com'', pu_role = None\<rparr>"

text \<open>Sixteen zero bytes from the random source, and the token \<^verbatim>\<open>uuidv4\<close> makes of them.\<close>

definition zero_bytes :: "nat list" where
  "zero_bytes = [0, 0, 0, 0, 0, 0, 0, 0, 0, 0, 0, 0, 0, 0, 0, 0]"

definition uuid_zero :: string where
  "uuid_zero = ''00000000-0000-4000-8000-000000000000''"

definition token_row_rotated :: refresh_token_row where
  "token_row_rotated =
     \<lparr>rt_id = 4, token_hash = uuid_zero, rt_user = 1, rt_device_type = Some Ios,
      device_info = Some ''app/1.0'', ip_address = Some ''10.0.0.1'',
      expires_at = 604801000, last_used_at = Some 1000,
      revoked = False, revoked_at = None, revoked_reason = None\<rparr>"

definition token_store_rotated :: store where
  "token_store_rotated =
     token_store_example\<lparr>refresh_tokens :=
       [(token_row_example 1 ''T1'' 1)
          \<lparr>revoked := True, revoked_at := Some 1000, revoked_reason := Some Rotated\<rparr>,
        token_row_example 2 ''T2'' 2,
        (token_row_example 3 ''T3'' 1)
          \<lparr>revoked := True, revoked_at := Some 5, revoked_reason := Some Security\<rparr>,
        token_row_rotated]\<rparr>"

definition jwt_example :: jwt_signer where
  "jwt_example claims key options = Some ''jwt''"

subsection \<open>An answer of the tokeninfo endpoint\<close>

definition google_claims_example :: google_claims where
  "google_claims_example =
     \<lparr>gc_aud = Some ''blog-client'', gc_iss = Some ''https://accounts.google.com'',
      gc_exp = Some 2000, gc_sub = ''g-1'', gc_email = ''u@example.com'',
      gc_name = Some ''U'', gc_picture = None, gc_email_verified = JString ''true''\<rparr>"

definition tokeninfo_example :: "google_claims \<Rightarrow> string \<Rightarrow> google_response" where
  "tokeninfo_example claims idToken =
     \<lparr>resp_ok = (idToken = ''good''), resp_json = claims\<rparr>"

definition google_env :: "string option \<Rightarrow> process_env" where
  "google_env clientId =
     \<lparr>JWT_PRIVATE_KEY = None, JWT_SECRET = Some ''secret'',
      JWT_ACCESS_TOKEN_EXPIRES_IN = None, JWT_REFRESH_TOKEN_EXPIRES_DAYS = None,
      ROTATE_REFRESH_TOKENS = None, GOOGLE_CLIENT_ID = clientId\<rparr>"

definition good_credentials :: google_credentials where
  "good_credentials = \<lparr>gcred_idToken = ''good'', gcred_platform = Web\<rparr>"

subsection \<open>Logins with one email under two providers\<close>

definition authenticated_role :: role_row where
  "authenticated_role = \<lparr>role_id = 1, role_name = Some ''Authenticated'', role_type = Some ''authenticated''\<rparr>"

definition empty_store :: store where
  "empty_store = \<lparr>users = [], roles = [authenticated_role], refresh_tokens = [], otp_codes = []\<rparr>"

definition email_login :: "string \<Rightarrow> find_or_create_user_options" where
  "email_login email =
     \<lparr>opt_email = email, opt_authProvider = Email, opt_providerId = email,
      opt_displayName = None, opt_avatarUrl = None, opt_confirmed = Some True\<rparr>"

definition google_login :: "string \<Rightarrow> string \<Rightarrow> find_or_create_user_options" where
  "google_login email sub =
     \<lparr>opt_email = email, opt_authProvider = Google, opt_providerId = sub,
      opt_displayName = Some ''A'', opt_avatarUrl = None, opt_confirmed = Some True\<rparr>"

definition user_a :: "auth_provider \<Rightarrow> string \<Rightarrow> string option \<Rightarrow> user_row" where
  "user_a provider pid name =
     \<lparr>user_id = 1, user_email = ''a@example.com'', username = ''a'',
      auth_provider = Some provider, provider_id = Some pid, display_name = name,
      avatar_url = None, confirmed = True, blocked = False, user_role = Some 1\<rparr>"

definition google_user_old :: user_row where
  "google_user_old =
     \<lparr>user_id = 1, user_email = ''old@example.com'', username = ''old'',
      auth_provider = Some Google, provider_id = Some ''g-1'', display_name = Some ''A'',
      avatar_url = None, confirmed = True, blocked = False, user_role = Some 1\<rparr>"

definition moved_store :: store where
  "moved_store = empty_store\<lparr>users := [google_user_old]\<rparr>"

section \<open>Verification: the OTP store\<close>

subsection \<open>Queries and updates\<close>

lemma next_id_fresh: "i \<in> set ids \<Longrightarrow> i < next_id ids"
  unfolding next_id_def by (induction ids) auto

lemma newest_mem: "newest b rows \<in> insert b (set rows)"
  by (induction rows arbitrary: b) auto

lemma findOne_newest_SomeD:
  assumes "findOne_newest wh rows = Some r"
  shows "r \<in> set rows \<and> wh r"
proof -
  from assms obtain x xs where f: "filter wh rows = x # xs" and r: "r = newest x xs"
    by (auto simp: findOne_newest_def split: list.splits)
  have "r \<in> set (filter wh rows)" using newest_mem [of x xs] by (simp add: f r)
  then show ?thesis by simp
qed

lemma findOne_newest_None: "findOne_newest wh rows = None \<longleftrightarrow> (\<forall>r\<in>set rows. \<not> wh r)"
proof -
  have "(filter wh rows = []) \<longleftrightarrow> (\<forall>r\<in>set rows. \<not> wh r)"
    by (simp add: filter_empty_conv)
  then show ?thesis
    by (cases "filter wh rows") (simp_all add: findOne_newest_def)
qed

lemma newest_map:
  assumes "\<And>r. otp_created_at (g r) = otp_created_at r"
  shows "newest (g b) (map g rows) = g (newest b rows)"
  by (induction rows arbitrary: b) (simp_all add: assms)

lemma findOne_newest_map:
  assumes "\<And>r. otp_created_at (g r) = otp_created_at r" and "\<And>r. wh (g r) = wh r"
  shows "findOne_newest wh (map g rows) = map_option g (findOne_newest wh rows)"
proof -
  have "filter wh (map g rows) = map g (filter wh rows)"
    by (induction rows) (simp_all add: assms(2))
  then show ?thesis
    by (simp add: findOne_newest_def newest_map [OF assms(1)] split: list.splits)
qed

lemma update_by_key:
  assumes "distinct (map k rows)" and "\<And>r. k (f r) = k r"
  shows "update (\<lambda>r. k r = i) f rows = map (\<lambda>r. if k r = i then f r else r) rows"
  using assms(1)
proof (induction rows)
  case Nil
  then show ?case by simp
next
  case (Cons a rows)
  show ?case
  proof (cases "k a = i")
    case True
    from Cons.prems have "k a \<notin> k ` set rows" by simp
    with True have "\<forall>r\<in>set rows. k r \<noteq> i" by blast
    then have "map (\<lambda>r. if k r = i then f r else r) rows = rows"
      by (simp add: map_idI)
    with True show ?thesis by simp
  next
    case False
    with Cons show ?thesis by simp
  qed
qed

lemma update_keys:
  assumes "\<And>r. k (f r) = k r"
  shows "map k (update wh f rows) = map k rows"
  by (induction rows) (simp_all add: assms)

subsection \<open>What one call of validate does\<close>

lemma email_validate_not_compared:
  assumes "compared_row now c s = None"
  shows "snd (email_validate H now c s) = s \<and>
         fst (email_validate H now c s) \<in> {Inl NoActiveOtp, Inl CodeExpired, Inl TooManyAttempts}"
  using assms
  by (auto simp: compared_row_def email_validate_def Let_def split: option.splits if_splits)

lemma email_validate_compared:
  assumes "compared_row now c s = Some r"
  shows "email_validate H now c s =
     (if code_hash r \<noteq> H (cred_otp c) then
        (Inl (if attempt_count r < 2 then InvalidCode (2 - attempt_count r) else TooManyAttempts),
         s\<lparr>otp_codes := update (\<lambda>x. otp_id x = otp_id r)
              (\<lambda>x. x\<lparr>attempt_count := attempt_count r + 1\<rparr>) (otp_codes s)\<rparr>)
      else
        (Inr \<lparr>eu_providerId = cred_email c, eu_email = cred_email c, eu_emailVerified = True\<rparr>,
         s\<lparr>otp_codes := update (\<lambda>x. otp_id x = otp_id r)
              (\<lambda>x. x\<lparr>used := True, used_at := Some now\<rparr>) (otp_codes s)\<rparr>))"
  using assms
  by (auto simp: compared_row_def email_validate_def hashOtp_def Let_def split: option.splits if_splits)

lemma compared_row_SomeD:
  assumes "compared_row now c s = Some r"
  shows "r \<in> set (otp_codes s) \<and> otp_email r = cred_email c \<and> \<not> used r \<and>
         now \<le> otp_expires_at r \<and> attempt_count r < 3"
  using assms findOne_newest_SomeD [of "active_otp (cred_email c)" "otp_codes s"]
  by (auto simp: compared_row_def active_otp_def split: option.splits if_splits)

lemma find_by_key_map:
  assumes "\<And>x. k (g x) = k x"
  shows "find (\<lambda>x. k x = i) (map g rows) = map_option g (find (\<lambda>x. k x = i) rows)"
  by (induction rows) (simp_all add: assms)

lemma find_by_key_distinct:
  assumes "distinct (map k rows)" and "r \<in> set rows"
  shows "find (\<lambda>x. k x = k r) rows = Some r"
  using assms by (induction rows) force+

subsection \<open>Steps of a run\<close>

lemma otp_step_Verify_rows:
  assumes "distinct (map otp_id (otp_codes s))"
  shows "otp_codes (otp_step H (Verify now c) s) =
     (case compared_row now c s of
        None \<Rightarrow> otp_codes s
      | Some r \<Rightarrow>
          map (\<lambda>x. if otp_id x = otp_id r
                    then (if code_hash r \<noteq> H (cred_otp c)
                          then x\<lparr>attempt_count := attempt_count r + 1\<rparr>
                          else x\<lparr>used := True, used_at := Some now\<rparr>)
                    else x) (otp_codes s))"
proof (cases "compared_row now c s")
  case None
  then show ?thesis using email_validate_not_compared [of now c s H] by simp
next
  case (Some r)
  show ?thesis
    using email_validate_compared [OF Some, of H]
    by (simp add: Some update_by_key [OF assms] cong: if_cong)
qed

lemma otp_step_distinct:
  assumes "distinct (map otp_id (otp_codes s))"
  shows "distinct (map otp_id (otp_codes (otp_step H c s)))"
proof (cases c)
  case (Verify now cr)
  have "map otp_id (otp_codes (otp_step H (Verify now cr) s)) = map otp_id (otp_codes s)"
    unfolding otp_step_Verify_rows [OF assms]
    by (cases "compared_row now cr s") (simp_all add: comp_def cong: if_cong)
  with assms Verify show ?thesis by (simp del: otp_step.simps)
next
  case (Request otp now e)
  have "next_id (map otp_id (otp_codes s)) \<notin> set (map otp_id (otp_codes s))"
    using next_id_fresh [of "next_id (map otp_id (otp_codes s))" "map otp_id (otp_codes s)"] by blast
  with assms Request show ?thesis
    by (simp add: generateAndStore_def Let_def)
qed

lemma find_Some_mem:
  assumes "find P rows = Some x"
  shows "x \<in> set rows \<and> P x"
  using assms by (induction rows) (auto split: if_splits)

lemma find_snoc:
  "find P (rows @ [r]) = (case find P rows of None \<Rightarrow> (if P r then Some r else None) | Some x \<Rightarrow> Some x)"
  by (induction rows) simp_all

lemma wrong_guess_budget_step:
  assumes d: "distinct (map otp_id (otp_codes s))"
  shows "(if wrong_guess H i c s then 1 else 0) + budget i (otp_codes (otp_step H c s))
           \<le> budget i (otp_codes s)"
proof (cases c)
  case (Request otp now e)
  show ?thesis
    by (cases "find (\<lambda>x. otp_id x = i) (otp_codes s)")
       (simp_all add: Request generateAndStore_def Let_def budget_def find_snoc)
next
  case (Verify now cr)
  show ?thesis
  proof (cases "compared_row now cr s")
    case None
    then show ?thesis
      using email_validate_not_compared [of now cr s H] by (simp add: Verify)
  next
    case (Some r)
    note r = compared_row_SomeD [OF Some]
    define g :: "otp_row \<Rightarrow> otp_row" where "g = (\<lambda>x. if otp_id x = otp_id r
                    then (if code_hash r \<noteq> H (cred_otp cr)
                          then x\<lparr>attempt_count := attempt_count r + 1\<rparr>
                          else x\<lparr>used := True, used_at := Some now\<rparr>)
                    else x)"
    have rows: "otp_codes (otp_step H (Verify now cr) s) = map g (otp_codes s)"
      unfolding otp_step_Verify_rows [OF d] g_def by (simp add: Some)
    have fnd: "find (\<lambda>x. otp_id x = i) (map g (otp_codes s)) =
               map_option g (find (\<lambda>x. otp_id x = i) (otp_codes s))"
      by (rule find_by_key_map) (simp add: g_def)
    have wg: "wrong_guess H i (Verify now cr) s \<longleftrightarrow> otp_id r = i \<and> code_hash r \<noteq> H (cred_otp cr)"
      by (simp add: Some hashOtp_def)
    show ?thesis
    proof (cases "otp_id r = i")
      case True
      have f: "find (\<lambda>x. otp_id x = i) (otp_codes s) = Some r"
        using find_by_key_distinct [OF d, of r] r True by simp
      have "attempt_count (g r) = (if code_hash r \<noteq> H (cred_otp cr) then attempt_count r + 1 else attempt_count r)"
        by (simp add: g_def)
      with r show ?thesis
        unfolding Verify rows fnd f wg budget_def by (auto simp: True)
    next
      case False
      have "\<And>x. find (\<lambda>x. otp_id x = i) (otp_codes s) = Some x \<Longrightarrow> g x = x"
        using False by (auto simp: g_def find_Some_iff)
      then show ?thesis
        unfolding Verify rows fnd wg budget_def using False
        by (cases "find (\<lambda>x. otp_id x = i) (otp_codes s)") simp_all
    qed
  qed
qed

lemma wrong_guesses_budget:
  assumes "distinct (map otp_id (otp_codes s))"
  shows "wrong_guesses H i cs s \<le> budget i (otp_codes s)"
  using assms
proof (induction cs arbitrary: s)
  case Nil
  then show ?case by simp
next
  case (Cons c cs)
  have "wrong_guesses H i cs (otp_step H c s) \<le> budget i (otp_codes (otp_step H c s))"
    by (rule Cons.IH) (rule otp_step_distinct [OF Cons.prems])
  with wrong_guess_budget_step [OF Cons.prems, of H i c] show ?case
    by (simp del: otp_step.simps wrong_guess.simps)
qed

lemma budget_le_3:
  assumes "\<forall>r\<in>set rows. 0 \<le> attempt_count r"
  shows "budget i rows \<le> 3"
proof (cases "find (\<lambda>x. otp_id x = i) rows")
  case None
  then show ?thesis by (simp add: budget_def)
next
  case (Some r)
  then have "r \<in> set rows" by (auto simp: find_Some_iff)
  with assms have "0 \<le> attempt_count r" by blast
  with Some show ?thesis by (simp add: budget_def)
qed

lemma right_guess_step:
  assumes d: "distinct (map otp_id (otp_codes s))"
  shows "(right_guess H i c s \<longrightarrow> \<not> (\<exists>r\<in>set (otp_codes s). otp_id r = i \<and> used r)) \<and>
         ((right_guess H i c s \<or> (\<exists>r\<in>set (otp_codes s). otp_id r = i \<and> used r))
            \<longrightarrow> (\<exists>r\<in>set (otp_codes (otp_step H c s)). otp_id r = i \<and> used r))"
proof (cases c)
  case (Request otp now e)
  show ?thesis
    by (auto simp: Request generateAndStore_def Let_def)
next
  case (Verify now cr)
  show ?thesis
  proof (cases "compared_row now cr s")
    case None
    then show ?thesis
      using email_validate_not_compared [of now cr s H] by (simp add: Verify)
  next
    case (Some r)
    note r = compared_row_SomeD [OF Some]
    define g :: "otp_row \<Rightarrow> otp_row" where "g = (\<lambda>x. if otp_id x = otp_id r
                    then (if code_hash r \<noteq> H (cred_otp cr)
                          then x\<lparr>attempt_count := attempt_count r + 1\<rparr>
                          else x\<lparr>used := True, used_at := Some now\<rparr>)
                    else x)"
    have rows: "otp_codes (otp_step H (Verify now cr) s) = map g (otp_codes s)"
      unfolding otp_step_Verify_rows [OF d] g_def by (simp add: Some)
    have rg: "right_guess H i (Verify now cr) s \<longleftrightarrow> otp_id r = i \<and> code_hash r = H (cred_otp cr)"
      by (simp add: Some hashOtp_def)
    have only: "\<And>x. x \<in> set (otp_codes s) \<Longrightarrow> otp_id x = otp_id r \<Longrightarrow> x = r"
      using d r by (meson distinct_map inj_onD)
    have keep: "\<And>x. used x \<Longrightarrow> otp_id (g x) = otp_id x \<and> used (g x)"
      by (simp add: g_def)
    have hit: "code_hash r = H (cred_otp cr) \<Longrightarrow> otp_id (g r) = otp_id r \<and> used (g r)"
      by (simp add: g_def)
    have 1: "right_guess H i (Verify now cr) s \<longrightarrow> \<not> (\<exists>x\<in>set (otp_codes s). otp_id x = i \<and> used x)"
    proof (intro impI notI)
      assume a: "right_guess H i (Verify now cr) s"
      assume "\<exists>x\<in>set (otp_codes s). otp_id x = i \<and> used x"
      then obtain x where x: "x \<in> set (otp_codes s)" "otp_id x = i" "used x" by blast
      from a have "otp_id r = i" by (simp only: rg)
      with x have "x = r" by (simp add: only)
      with x(3) r show False by simp
    qed
    have 2: "(right_guess H i (Verify now cr) s \<or> (\<exists>x\<in>set (otp_codes s). otp_id x = i \<and> used x))
            \<longrightarrow> (\<exists>x\<in>set (map g (otp_codes s)). otp_id x = i \<and> used x)"
    proof (intro impI, erule disjE)
      assume "right_guess H i (Verify now cr) s"
      then have "otp_id r = i" "code_hash r = H (cred_otp cr)" by (simp_all only: rg)
      with hit have "otp_id (g r) = i \<and> used (g r)" by simp
      moreover have "g r \<in> set (map g (otp_codes s))" using r by simp
      ultimately show "\<exists>x\<in>set (map g (otp_codes s)). otp_id x = i \<and> used x" by (rule_tac bexI)
    next
      assume "\<exists>x\<in>set (otp_codes s). otp_id x = i \<and> used x"
      then obtain x where x: "x \<in> set (otp_codes s)" "otp_id x = i" "used x" by blast
      from keep [OF x(3)] x(2) have "otp_id (g x) = i \<and> used (g x)" by simp
      moreover have "g x \<in> set (map g (otp_codes s))" using x(1) by simp
      ultimately show "\<exists>x\<in>set (map g (otp_codes s)). otp_id x = i \<and> used x" by (rule_tac bexI)
    qed
    show ?thesis unfolding Verify rows by (rule conjI [OF 1 2])
  qed
qed

lemma count_step:
  fixes v :: nat
  assumes "A \<longrightarrow> \<not> B" and "(A \<or> B) \<longrightarrow> B'" and "v \<le> (if B' then 0 else 1)"
  shows "(if A then 1 else 0) + v \<le> (if B then 0 else 1)"
  using assms by (cases A; cases B; cases B') simp_all

lemma verifications_le:
  assumes "distinct (map otp_id (otp_codes s))"
  shows "verifications H i cs s \<le> (if \<exists>r\<in>set (otp_codes s). otp_id r = i \<and> used r then 0 else 1)"
  using assms
proof (induction cs arbitrary: s)
  case Nil
  then show ?case by simp
next
  case (Cons c cs)
  have ih: "verifications H i cs (otp_step H c s)
          \<le> (if \<exists>r\<in>set (otp_codes (otp_step H c s)). otp_id r = i \<and> used r then 0 else 1)"
    by (rule Cons.IH) (rule otp_step_distinct [OF Cons.prems])
  note st = right_guess_step [OF Cons.prems, of H i c]
  have "(if right_guess H i c s then 1 else 0) + verifications H i cs (otp_step H c s)
          \<le> (if \<exists>r\<in>set (otp_codes s). otp_id r = i \<and> used r then 0 else 1)"
    by (rule count_step [OF conjunct1 [OF st] conjunct2 [OF st] ih])
  then show ?case by (simp only: verifications.simps)
qed

subsection \<open>The claims\<close>

lemmas otp_eval =
  otp_store_example_def otp_row_example_def guess_def email_validate_def generateAndStore_def
  findOne_newest_def active_otp_def hashOtp_def compared_row_def next_id_def Let_def

lemma distinct_key_eq:
  assumes "distinct (map k rows)" and "x \<in> set rows" and "y \<in> set rows" and "k x = k y"
  shows "x = y"
proof -
  from assms(1) have "inj_on k (set rows)" by (simp add: distinct_map)
  with assms(2-4) show ?thesis by (rule_tac inj_onD)
qed

lemma used_rows_kept:
  assumes d: "distinct (map otp_id (otp_codes s))" and x: "x \<in> set (otp_codes s)" and u: "used x"
  shows "x \<in> set (otp_codes (otp_step H c s))"
proof (cases c)
  case (Request otp now e)
  with x show ?thesis by (simp add: generateAndStore_def Let_def)
next
  case (Verify now cr)
  show ?thesis
  proof (cases "compared_row now cr s")
    case None
    with x show ?thesis unfolding Verify otp_step_Verify_rows [OF d] by simp
  next
    case (Some r)
    note r = compared_row_SomeD [OF Some]
    have ne: "otp_id x \<noteq> otp_id r"
    proof
      assume e: "otp_id x = otp_id r"
      from r have rin: "r \<in> set (otp_codes s)" by simp
      have "x = r" by (rule distinct_key_eq [OF d x rin e])
      with u r show False by simp
    qed
    define g :: "otp_row \<Rightarrow> otp_row" where "g = (\<lambda>x. if otp_id x = otp_id r
                    then (if code_hash r \<noteq> H (cred_otp cr)
                          then x\<lparr>attempt_count := attempt_count r + 1\<rparr>
                          else x\<lparr>used := True, used_at := Some now\<rparr>)
                    else x)"
    have rows: "otp_codes (otp_step H (Verify now cr) s) = map g (otp_codes s)"
      unfolding otp_step_Verify_rows [OF d] g_def by (simp add: Some)
    have "g x = x" using ne by (simp add: g_def)
    moreover have "g x \<in> set (map g (otp_codes s))" using x by simp
    ultimately show ?thesis unfolding Verify rows by simp
  qed
qed

lemma map_by_key_eq:
  assumes "distinct (map k rows)" and "r \<in> set rows"
  shows "map (\<lambda>x. if k x = k r then f x else x) rows = map (\<lambda>x. if x = r then f r else x) rows"
proof (rule map_cong [OF refl])
  fix x assume "x \<in> set rows"
  with assms have "k x = k r \<longleftrightarrow> x = r" using distinct_key_eq [of k rows x r] by blast
  then show "(if k x = k r then f x else x) = (if x = r then f r else x)" by auto
qed

text \<open>
  C9, as amended. A call of \<^verbatim>\<open>validate\<close> that selects row \<open>r\<close> (unused, the newest for the
  email), with \<open>r\<close> unexpired, \<open>attempt_count r < 3\<close> and a submitted code whose hash
  differs from \<open>code_hash r\<close>, returns a failure together with a store in which
  \<open>r\<close>'s \<open>attempt_count\<close> is one higher and nothing else has changed. The failure is
  \<open>InvalidCode\<close> with \<open>3 - (attempt_count r + 1)\<close> attempts remaining while that number
  is positive, and the too-many-attempts error when the new count reaches 3.
\<close>

theorem email_validate_mismatch:
  assumes "distinct (map otp_id (otp_codes s))"
    and "findOne_newest (active_otp (cred_email c)) (otp_codes s) = Some r"
    and "now \<le> otp_expires_at r" and "attempt_count r < 3"
    and "code_hash r \<noteq> hashOtp H (cred_otp c)"
  shows "email_validate H now c s =
     (Inl (if 0 < 3 - (attempt_count r + 1) then InvalidCode (3 - (attempt_count r + 1))
           else TooManyAttempts),
      s\<lparr>otp_codes :=
           map (\<lambda>x. if x = r then r\<lparr>attempt_count := attempt_count r + 1\<rparr> else x)
             (otp_codes s)\<rparr>)"
proof -
  have cr: "compared_row now c s = Some r"
    using assms(2-4) by (simp add: compared_row_def)
  have rin: "r \<in> set (otp_codes s)"
    using findOne_newest_SomeD [OF assms(2)] by simp
  have "update (\<lambda>x. otp_id x = otp_id r) (\<lambda>x. x\<lparr>attempt_count := attempt_count r + 1\<rparr>) (otp_codes s)
      = map (\<lambda>x. if x = r then r\<lparr>attempt_count := attempt_count r + 1\<rparr> else x) (otp_codes s)"
    by (simp add: update_by_key [OF assms(1)] map_by_key_eq [OF assms(1) rin])
  then show ?thesis
    using assms(4,5) by (simp add: email_validate_compared [OF cr] hashOtp_def)
qed

text \<open>A first wrong guess at a fresh row: two attempts remain, the count is 1.\<close>

theorem email_validate_mismatch_witness:
  "email_validate (\<lambda>x. x) 1000 (guess ''000000'') (otp_store_example 0)
     = (Inl (InvalidCode 2), otp_store_example 1)"
proof -
  have 1: "distinct (map otp_id (otp_codes (otp_store_example 0)))"
    by (simp add: otp_eval)
  have 2: "findOne_newest (active_otp (cred_email (guess ''000000''))) (otp_codes (otp_store_example 0))
             = Some (otp_row_example\<lparr>attempt_count := 0\<rparr>)"
    by (simp add: otp_eval)
  have 3: "1000 \<le> otp_expires_at (otp_row_example\<lparr>attempt_count := 0\<rparr>)"
    by (simp add: otp_eval)
  have 4: "attempt_count (otp_row_example\<lparr>attempt_count := 0\<rparr>) < 3"
    by simp
  have 5: "code_hash (otp_row_example\<lparr>attempt_count := 0\<rparr>) \<noteq> hashOtp (\<lambda>x. x) (cred_otp (guess ''000000''))"
    by (simp add: otp_eval)
  show ?thesis
    using email_validate_mismatch [OF 1 2 3 4 5]
    by (simp add: otp_store_example_def)
qed

text \<open>
  C9 as stated fails at the third wrong guess: the count goes from 2 to 3 and the
  failure is the too-many-attempts error, not \<open>InvalidCode\<close> with \<open>3 - 3\<close> attempts
  remaining.
\<close>

theorem email_validate_third_mismatch_counterexample:
  "fst (email_validate (\<lambda>x. x) 1000 (guess ''000000'') (otp_store_example 2)) = Inl TooManyAttempts
   \<and> fst (email_validate (\<lambda>x. x) 1000 (guess ''000000'') (otp_store_example 2)) \<noteq> Inl (InvalidCode (3 - (2 + 1)))
   \<and> snd (email_validate (\<lambda>x. x) 1000 (guess ''000000'') (otp_store_example 2)) = otp_store_example 3"
  by (simp add: otp_eval)

text \<open>
  C1, as amended. In a store whose OTP rows have distinct ids and non-negative
  attempt counts, any run of calls makes at most 3 wrong guesses at any one row. A call
  that selects a row with \<open>attempt_count \<ge> 3\<close> fails before the submitted code is
  compared, whatever the code, and leaves the store as it is: with the too-many-attempts
  error while the row is unexpired, with the expired error once it is expired (the
  expiry check comes first).
\<close>

theorem otp_attempt_limit:
  assumes "distinct (map otp_id (otp_codes s))"
    and "\<forall>x\<in>set (otp_codes s). 0 \<le> attempt_count x"
  shows "wrong_guesses H i calls s \<le> 3 \<and>
         (\<forall>now (c::email_credentials) r. findOne_newest (active_otp (cred_email c)) (otp_codes s) = Some r
              \<longrightarrow> 3 \<le> attempt_count r
              \<longrightarrow> compared_row now c s = None \<and>
                  email_validate H now c s =
                    (Inl (if now > otp_expires_at r then CodeExpired else TooManyAttempts), s))"
proof (intro conjI allI impI)
  have "wrong_guesses H i calls s \<le> budget i (otp_codes s)"
    by (rule wrong_guesses_budget [OF assms(1)])
  also have "\<dots> \<le> 3" by (rule budget_le_3 [OF assms(2)])
  finally show "wrong_guesses H i calls s \<le> 3" .
next
  fix now and c :: email_credentials and r
  assume "findOne_newest (active_otp (cred_email c)) (otp_codes s) = Some r" and "3 \<le> attempt_count r"
  then show "compared_row now c s = None" by (simp add: compared_row_def)
next
  fix now and c :: email_credentials and r
  assume "findOne_newest (active_otp (cred_email c)) (otp_codes s) = Some r" and "3 \<le> attempt_count r"
  then show "email_validate H now c s =
                    (Inl (if now > otp_expires_at r then CodeExpired else TooManyAttempts), s)"
    by (simp add: email_validate_def Let_def)
qed

text \<open>
  Four wrong guesses at a fresh row: three are counted, the row ends at
  \<open>attempt_count = 3\<close>, and the right code \<^verbatim>\<open>123456\<close> is then refused.
\<close>

theorem otp_attempt_limit_witness:
  "wrong_guesses (\<lambda>x. x) 1
      [Verify 1000 (guess ''000000''), Verify 2000 (guess ''111111''),
       Verify 3000 (guess ''222222''), Verify 4000 (guess ''333333'')]
      (otp_store_example 0) = 3
   \<and> wrong_guesses (\<lambda>x. x) 1
      [Verify 1000 (guess ''000000''), Verify 2000 (guess ''111111''),
       Verify 3000 (guess ''222222''), Verify 4000 (guess ''333333'')]
      (otp_store_example 0) \<le> 3
   \<and> otp_step (\<lambda>x. x) (Verify 3000 (guess ''222222''))
        (otp_step (\<lambda>x. x) (Verify 2000 (guess ''111111''))
          (otp_step (\<lambda>x. x) (Verify 1000 (guess ''000000'')) (otp_store_example 0)))
       = otp_store_example 3
   \<and> compared_row 5000 (guess ''123456'') (otp_store_example 3) = None
   \<and> email_validate (\<lambda>x. x) 5000 (guess ''123456'') (otp_store_example 3)
       = (Inl TooManyAttempts, otp_store_example 3)"
proof -
  have d0: "distinct (map otp_id (otp_codes (otp_store_example 0)))"
    and n0: "\<forall>x\<in>set (otp_codes (otp_store_example 0)). 0 \<le> attempt_count x"
    and d3: "distinct (map otp_id (otp_codes (otp_store_example 3)))"
    and n3: "\<forall>x\<in>set (otp_codes (otp_store_example 3)). 0 \<le> attempt_count x"
    by (simp_all add: otp_eval)
  have sel: "findOne_newest (active_otp (cred_email (guess ''123456''))) (otp_codes (otp_store_example 3))
               = Some (otp_row_example\<lparr>attempt_count := 3\<rparr>)"
    by (simp add: otp_eval)
  have a: "3 \<le> attempt_count (otp_row_example\<lparr>attempt_count := 3\<rparr>)" by simp
  have e: "\<not> 5000 > otp_expires_at (otp_row_example\<lparr>attempt_count := 3\<rparr>)"
    by (simp add: otp_eval)
  note w = otp_attempt_limit [OF d0 n0, of "\<lambda>x. x" 1
      "[Verify 1000 (guess ''000000''), Verify 2000 (guess ''111111''),
       Verify 3000 (guess ''222222''), Verify 4000 (guess ''333333'')]"]
  note x = otp_attempt_limit [OF d3 n3, of "\<lambda>x. x" 1 "[]", THEN conjunct2, rule_format, OF sel a, of 5000]
  have run: "otp_step (\<lambda>x. x) (Verify 3000 (guess ''222222''))
        (otp_step (\<lambda>x. x) (Verify 2000 (guess ''111111''))
          (otp_step (\<lambda>x. x) (Verify 1000 (guess ''000000'')) (otp_store_example 0)))
       = otp_store_example 3"
    by (simp add: otp_eval)
  have cnt: "wrong_guesses (\<lambda>x. x) 1
      [Verify 1000 (guess ''000000''), Verify 2000 (guess ''111111''),
       Verify 3000 (guess ''222222''), Verify 4000 (guess ''333333'')]
      (otp_store_example 0) = 3"
    by (simp add: otp_eval)
  from w x e run cnt show ?thesis by simp
qed

text \<open>
  C1 as stated fails for an exhausted row that has expired: the call fails with the
  expired error, not with the too-many-attempts error.
\<close>

theorem otp_exhausted_expired_counterexample:
  "attempt_count (otp_row_example\<lparr>attempt_count := 3\<rparr>) = 3
   \<and> findOne_newest (active_otp ''a@example.com'') (otp_codes (otp_store_example 3))
       = Some (otp_row_example\<lparr>attempt_count := 3\<rparr>)
   \<and> email_validate (\<lambda>x. x) 600001 (guess ''123456'') (otp_store_example 3)
       = (Inl CodeExpired, otp_store_example 3)
   \<and> fst (email_validate (\<lambda>x. x) 600001 (guess ''123456'') (otp_store_example 3))
       \<noteq> Inl TooManyAttempts"
  by (simp add: otp_eval)

lemma email_validate_success:
  assumes "email_validate H now c s = (Inr info, s')"
  shows "\<exists>r. compared_row now c s = Some r \<and> code_hash r = hashOtp H (cred_otp c)"
proof (cases "compared_row now c s")
  case None
  from email_validate_not_compared [OF None, of H] assms show ?thesis by auto
next
  case (Some r)
  from email_validate_compared [OF Some, of H] assms show ?thesis
    by (auto simp: Some hashOtp_def split: if_splits)
qed

text \<open>
  C4. In a store whose OTP rows have distinct ids: a row with \<open>used = True\<close> is selected
  by no call of \<^verbatim>\<open>validate\<close>, for any email, and every call leaves it as it is; a call
  that succeeds selected an unused row whose \<open>code_hash\<close> is the hash of the submitted
  code, and sets that row's \<open>used\<close> to \<open>True\<close> (and \<open>used_at\<close>) and nothing else; and in
  any run of calls at most one call verifies a given row.
\<close>

theorem otp_single_use:
  assumes "distinct (map otp_id (otp_codes s))"
  shows "(\<forall>r\<in>set (otp_codes s). used r \<longrightarrow>
            (\<forall>email. findOne_newest (active_otp email) (otp_codes s) \<noteq> Some r) \<and>
            (\<forall>call. r \<in> set (otp_codes (otp_step H call s))))
       \<and> (\<forall>now c info s'. email_validate H now c s = (Inr info, s') \<longrightarrow>
            (\<exists>r. findOne_newest (active_otp (cred_email c)) (otp_codes s) = Some r \<and>
                 \<not> used r \<and> code_hash r = hashOtp H (cred_otp c) \<and>
                 otp_codes s' =
                   map (\<lambda>x. if x = r then r\<lparr>used := True, used_at := Some now\<rparr> else x)
                     (otp_codes s)))
       \<and> verifications H i calls s \<le> 1"
proof (intro conjI ballI allI impI)
  fix r email
  assume "r \<in> set (otp_codes s)" and u: "used r"
  show "findOne_newest (active_otp email) (otp_codes s) \<noteq> Some r"
  proof
    assume "findOne_newest (active_otp email) (otp_codes s) = Some r"
    from findOne_newest_SomeD [OF this] u show False by (simp add: active_otp_def)
  qed
next
  fix r call
  assume "r \<in> set (otp_codes s)" and "used r"
  then show "r \<in> set (otp_codes (otp_step H call s))"
    by (rule used_rows_kept [OF assms])
next
  fix now c info s'
  assume ok: "email_validate H now c s = (Inr info, s')"
  from email_validate_success [OF ok] obtain r
    where cr: "compared_row now c s = Some r" and h: "code_hash r = hashOtp H (cred_otp c)"
    by blast
  note r = compared_row_SomeD [OF cr]
  from r have rin: "r \<in> set (otp_codes s)" by simp
  have sel: "findOne_newest (active_otp (cred_email c)) (otp_codes s) = Some r"
    using cr by (simp add: compared_row_def split: option.splits if_splits)
  have "otp_codes s' = update (\<lambda>x. otp_id x = otp_id r) (\<lambda>x. x\<lparr>used := True, used_at := Some now\<rparr>) (otp_codes s)"
    using email_validate_compared [OF cr, of H] ok h by (simp add: hashOtp_def)
  also have "\<dots> = map (\<lambda>x. if x = r then r\<lparr>used := True, used_at := Some now\<rparr> else x) (otp_codes s)"
    by (simp add: update_by_key [OF assms] map_by_key_eq [OF assms rin])
  finally have "otp_codes s' =
       map (\<lambda>x. if x = r then r\<lparr>used := True, used_at := Some now\<rparr> else x) (otp_codes s)" .
  with sel r h
  show "\<exists>r. findOne_newest (active_otp (cred_email c)) (otp_codes s) = Some r \<and>
                 \<not> used r \<and> code_hash r = hashOtp H (cred_otp c) \<and>
                 otp_codes s' =
                   map (\<lambda>x. if x = r then r\<lparr>used := True, used_at := Some now\<rparr> else x)
                     (otp_codes s)"
    by blast
next
  from verifications_le [OF assms, of H i calls] show "verifications H i calls s \<le> 1"
    by (simp split: if_splits)
qed

text \<open>The right code verifies once; the same code a second time finds no active OTP.\<close>

theorem otp_single_use_witness:
  "email_validate (\<lambda>x. x) 1000 (guess ''123456'') (otp_store_example 0)
      = (Inr \<lparr>eu_providerId = ''a@example.com'', eu_email = ''a@example.com'',
              eu_emailVerified = True\<rparr>, otp_store_used)
   \<and> used otp_row_used
   \<and> findOne_newest (active_otp ''a@example.com'') (otp_codes otp_store_used) \<noteq> Some otp_row_used
   \<and> email_validate (\<lambda>x. x) 2000 (guess ''123456'') otp_store_used
      = (Inl NoActiveOtp, otp_store_used)
   \<and> otp_row_used \<in> set (otp_codes (otp_step (\<lambda>x. x) (Verify 2000 (guess ''123456'')) otp_store_used))
   \<and> verifications (\<lambda>x. x) 1
        [Verify 1000 (guess ''123456''), Verify 2000 (guess ''123456'')] (otp_store_example 0) = 1
   \<and> verifications (\<lambda>x. x) 1
        [Verify 1000 (guess ''123456''), Verify 2000 (guess ''123456'')] (otp_store_example 0) \<le> 1"
proof -
  have d0: "distinct (map otp_id (otp_codes (otp_store_example 0)))"
    and du: "distinct (map otp_id (otp_codes otp_store_used))"
    and m: "otp_row_used \<in> set (otp_codes otp_store_used)"
    and u: "used otp_row_used"
    by (simp_all add: otp_eval otp_store_used_def otp_row_used_def)
  note a = otp_single_use [OF du, of "\<lambda>x. x" 1 "[]", THEN conjunct1, rule_format, OF m u]
  note b = otp_single_use [OF d0, of "\<lambda>x. x" 1
     "[Verify 1000 (guess ''123456''), Verify 2000 (guess ''123456'')]", THEN conjunct2, THEN conjunct2]
  have v1: "email_validate (\<lambda>x. x) 1000 (guess ''123456'') (otp_store_example 0)
      = (Inr \<lparr>eu_providerId = ''a@example.com'', eu_email = ''a@example.com'',
              eu_emailVerified = True\<rparr>, otp_store_used)"
    by (simp add: otp_eval otp_store_used_def otp_row_used_def)
  have v2: "email_validate (\<lambda>x. x) 2000 (guess ''123456'') otp_store_used
      = (Inl NoActiveOtp, otp_store_used)"
    by (simp add: otp_eval otp_store_used_def otp_row_used_def)
  have cnt: "verifications (\<lambda>x. x) 1
        [Verify 1000 (guess ''123456''), Verify 2000 (guess ''123456'')] (otp_store_example 0) = 1"
    by (simp add: otp_eval otp_store_used_def otp_row_used_def)
  from a [THEN conjunct1, rule_format, of "''a@example.com''"]
       a [THEN conjunct2, rule_format, of "Verify 2000 (guess ''123456'')"] b u v1 v2 cnt
  show ?thesis by simp
qed

section \<open>Verification: the token service\<close>

lemmas token_eval =
  token_store_example_def token_row_example_def user_example_def validateRefreshToken_def
  revokeRefreshToken_def updateMany_def Let_def

lemma find_map_pred:
  assumes "\<And>x. P (g x) = P x"
  shows "find P (map g rows) = map_option g (find P rows)"
  by (induction rows) (simp_all add: assms)

text \<open>
  C3. \<^verbatim>\<open>validateRefreshToken\<close> returns \<open>None\<close> when no row has the hash of the
  plaintext; whatever it returns is \<open>None\<close> or a row of the table under that hash that
  is neither revoked nor past \<open>expires_at\<close>, with its owner populated; and with the
  token hashes of the table distinct (the column is UNIQUE), for the row under the hash
  it returns the one value \<open>None\<close> when that row is revoked or expired and the row
  otherwise.
\<close>

theorem validateRefreshToken_null_or_record:
  "((\<forall>r\<in>set (refresh_tokens s). token_hash r \<noteq> H raw)
       \<longrightarrow> fst (validateRefreshToken H now raw s) = None)
   \<and> (fst (validateRefreshToken H now raw s) = None
       \<or> (\<exists>r\<in>set (refresh_tokens s).
             token_hash r = H raw \<and> \<not> revoked r \<and> now \<le> expires_at r \<and>
             fst (validateRefreshToken H now raw s) =
               Some \<lparr>rt_row = r, rt_owner = find (\<lambda>u. user_id u = rt_user r) (users s)\<rparr>))
   \<and> (distinct (map token_hash (refresh_tokens s)) \<longrightarrow>
        (\<forall>r\<in>set (refresh_tokens s). token_hash r = H raw \<longrightarrow>
            fst (validateRefreshToken H now raw s) =
              (if revoked r \<or> now > expires_at r then None
               else Some \<lparr>rt_row = r,
                          rt_owner = find (\<lambda>u. user_id u = rt_user r) (users s)\<rparr>)))"
proof -
  have absent: "(\<forall>r\<in>set (refresh_tokens s). token_hash r \<noteq> H raw)
       \<longrightarrow> fst (validateRefreshToken H now raw s) = None"
  proof
    assume "\<forall>r\<in>set (refresh_tokens s). token_hash r \<noteq> H raw"
    then have "find (\<lambda>r. token_hash r = H raw) (refresh_tokens s) = None"
      by (auto simp: find_None_iff)
    then show "fst (validateRefreshToken H now raw s) = None"
      by (simp add: validateRefreshToken_def)
  qed
  have sound: "fst (validateRefreshToken H now raw s) = None
       \<or> (\<exists>r\<in>set (refresh_tokens s).
             token_hash r = H raw \<and> \<not> revoked r \<and> now \<le> expires_at r \<and>
             fst (validateRefreshToken H now raw s) =
               Some \<lparr>rt_row = r, rt_owner = find (\<lambda>u. user_id u = rt_user r) (users s)\<rparr>)"
  proof (cases "find (\<lambda>r. token_hash r = H raw) (refresh_tokens s)")
    case None
    then show ?thesis by (simp add: validateRefreshToken_def)
  next
    case (Some r)
    from find_Some_mem [OF Some] have "r \<in> set (refresh_tokens s)" "token_hash r = H raw"
      by simp_all
    then show ?thesis
      by (cases "revoked r"; cases "now > expires_at r")
         (auto simp: validateRefreshToken_def Some)
  qed
  have unique: "distinct (map token_hash (refresh_tokens s)) \<longrightarrow>
        (\<forall>r\<in>set (refresh_tokens s). token_hash r = H raw \<longrightarrow>
            fst (validateRefreshToken H now raw s) =
              (if revoked r \<or> now > expires_at r then None
               else Some \<lparr>rt_row = r,
                          rt_owner = find (\<lambda>u. user_id u = rt_user r) (users s)\<rparr>))"
  proof (intro impI ballI)
    fix r
    assume d: "distinct (map token_hash (refresh_tokens s))"
      and r: "r \<in> set (refresh_tokens s)" and h: "token_hash r = H raw"
    have "find (\<lambda>x. token_hash x = token_hash r) (refresh_tokens s) = Some r"
      by (rule find_by_key_distinct [OF d r])
    with h have "find (\<lambda>x. token_hash x = H raw) (refresh_tokens s) = Some r" by simp
    then show "fst (validateRefreshToken H now raw s) =
              (if revoked r \<or> now > expires_at r then None
               else Some \<lparr>rt_row = r,
                          rt_owner = find (\<lambda>u. user_id u = rt_user r) (users s)\<rparr>)"
      by (simp add: validateRefreshToken_def)
  qed
  from absent sound unique show ?thesis by (intro conjI)
qed

text \<open>An unknown token, a revoked one and an expired one all give \<open>None\<close>; a live one gives its row.\<close>

theorem validateRefreshToken_null_or_record_witness:
  "fst (validateRefreshToken (\<lambda>x. x) 1000 ''T0'' token_store_example) = None
   \<and> fst (validateRefreshToken (\<lambda>x. x) 1000 ''T3'' token_store_example) = None
   \<and> fst (validateRefreshToken (\<lambda>x. x) 604800001 ''T1'' token_store_example) = None
   \<and> fst (validateRefreshToken (\<lambda>x. x) 604800000 ''T1'' token_store_example)
       = Some \<lparr>rt_row = token_row_example 1 ''T1'' 1,
               rt_owner = Some (user_example 1 ''u@example.com'')\<rparr>"
proof -
  have d: "distinct (map token_hash (refresh_tokens token_store_example))"
    by (simp add: token_eval)
  have absent: "\<forall>r\<in>set (refresh_tokens token_store_example). token_hash r \<noteq> (\<lambda>x. x) ''T0''"
    by (simp add: token_eval)
  have m1: "token_row_example 1 ''T1'' 1 \<in> set (refresh_tokens token_store_example)"
    and h1: "token_hash (token_row_example 1 ''T1'' 1) = (\<lambda>x. x) ''T1''"
    by (simp_all add: token_eval)
  have m3: "(token_row_example 3 ''T3'' 1)
           \<lparr>revoked := True, revoked_at := Some 5, revoked_reason := Some Security\<rparr>
             \<in> set (refresh_tokens token_store_example)"
    and h3: "token_hash ((token_row_example 3 ''T3'' 1)
           \<lparr>revoked := True, revoked_at := Some 5, revoked_reason := Some Security\<rparr>) = (\<lambda>x. x) ''T3''"
    by (simp_all add: token_eval)
  note t = validateRefreshToken_null_or_record [where H = "\<lambda>x. x" and s = token_store_example]
  from t [where raw = "''T0''" and now = 1000, THEN conjunct1, THEN mp, OF absent]
       t [where raw = "''T3''" and now = 1000, THEN conjunct2, THEN conjunct2, THEN mp, OF d,
          THEN bspec, OF m3, THEN mp, OF h3]
       t [where raw = "''T1''" and now = 604800001, THEN conjunct2, THEN conjunct2, THEN mp, OF d,
          THEN bspec, OF m1, THEN mp, OF h1]
       t [where raw = "''T1''" and now = 604800000, THEN conjunct2, THEN conjunct2, THEN mp, OF d,
          THEN bspec, OF m1, THEN mp, OF h1]
  show ?thesis
    by (simp add: token_eval)
qed

text \<open>
  C5. \<^verbatim>\<open>revokeAllUserRefreshTokens\<close> filters on the relation \<open>user\<close>, so its
  \<^verbatim>\<open>updateMany\<close> throws and the store is as it was, whatever the user and the table: no
  row is revoked. In the example table user 1 owns the token \<^verbatim>\<open>T1\<close>, which is not
  revoked; after \<^verbatim>\<open>revokeAllUserRefreshTokens(1)\<close> its row is as before and \<^verbatim>\<open>T1\<close> still
  validates.
\<close>

theorem revokeAllUserRefreshTokens_revokes_nothing:
  "revokeAllUserRefreshTokens now userId s = (Inl UpdateWithoutData, s)
   \<and> token_row_example 1 ''T1'' 1 \<in> set (refresh_tokens token_store_example)
   \<and> rt_user (token_row_example 1 ''T1'' 1) = 1
   \<and> revoked (token_row_example 1 ''T1'' 1) = False
   \<and> revokeAllUserRefreshTokens 9000 1 token_store_example
       = (Inl UpdateWithoutData, token_store_example)
   \<and> refresh_tokens (snd (revokeAllUserRefreshTokens 9000 1 token_store_example)) ! 0
       = token_row_example 1 ''T1'' 1
   \<and> fst (validateRefreshToken (\<lambda>x. x) 9001 ''T1''
           (snd (revokeAllUserRefreshTokens 9000 1 token_store_example)))
       = Some \<lparr>rt_row = token_row_example 1 ''T1'' 1,
               rt_owner = Some (user_example 1 ''u@example.com'')\<rparr>"
proof -
  have throws: "revokeAllUserRefreshTokens now userId s = (Inl UpdateWithoutData, s)"
    for now userId s
    by (simp add: revokeAllUserRefreshTokens_def updateMany_where_def)
  have row: "token_row_example 1 ''T1'' 1 \<in> set (refresh_tokens token_store_example)"
    "rt_user (token_row_example 1 ''T1'' 1) = 1"
    "revoked (token_row_example 1 ''T1'' 1) = False"
    "refresh_tokens token_store_example ! 0 = token_row_example 1 ''T1'' 1"
    by (simp_all add: token_store_example_def token_row_example_def)
  have valid: "fst (validateRefreshToken (\<lambda>x. x) 9001 ''T1'' token_store_example)
       = Some \<lparr>rt_row = token_row_example 1 ''T1'' 1,
               rt_owner = Some (user_example 1 ''u@example.com'')\<rparr>"
    by (simp add: token_eval)
  from row valid show ?thesis by (simp add: throws)
qed

lemmas parse_eval =
  expiryDays_def parseInt_def is_space_def is_digit_def digit_value_def digits_value_def
  or_else_def new_Date_def env_example_def utf16_def

lemmas generate_eval =
  generateRefreshToken_def create_refresh_token_def next_id_def ios_options_def owner_example_def

lemma expiryDays_default:
  assumes "\<not> truthy (JWT_REFRESH_TOKEN_EXPIRES_DAYS env)"
  shows "expiryDays env = Some 7"
  using assms
  by (simp add: expiryDays_def or_else_def parseInt_def is_space_def is_digit_def
        digit_value_def digits_value_def utf16_def)

text \<open>
  White space before the number is skipped whatever its kind, and what follows the digits
  is ignored: a no-break space, an em space, \<^verbatim>\<open>30\<close> and \<^verbatim>\<open> days\<close> parse to 30.
\<close>

lemma parseInt_white_space:
  "parseInt ([0xA0, 0x2003] @ utf16 ''30 days'') = Some 30"
  by (simp add: parseInt_def is_space_def is_digit_def digit_value_def digits_value_def
        utf16_def)

subsection \<open>How many tokens \<^verbatim>\<open>uuidv4\<close> can return\<close>

text \<open>The masks in arithmetic: the low four and six bits are kept, the high bits set.\<close>

lemma and_15: "(b::nat) AND 15 = b mod 16"
proof -
  have "(15::nat) = mask 4" by (simp add: mask_eq_exp_minus_1)
  then have "b AND 15 = take_bit 4 b" by (simp add: take_bit_eq_mask)
  then show ?thesis by (simp add: take_bit_eq_mod)
qed

lemma and_63: "(b::nat) AND 63 = b mod 64"
proof -
  have "(63::nat) = mask 6" by (simp add: mask_eq_exp_minus_1)
  then have "b AND 63 = take_bit 6 b" by (simp add: take_bit_eq_mask)
  then show ?thesis by (simp add: take_bit_eq_mod)
qed

lemma or_high_bit: "take_bit k (b::nat) OR 2 ^ m = take_bit k b + 2 ^ m" if "k \<le> m"
proof -
  have "take_bit k b AND 2 ^ m = 0"
    using that by (intro bit_eqI) (auto simp: bit_and_iff bit_take_bit_iff bit_exp_iff)
  then show ?thesis by (simp add: disjunctive_add_eq_or)
qed

lemma version_bits: "((b::nat) AND 0x0f) OR 0x40 = b mod 16 + 64"
  using or_high_bit [of 4 6 b] by (simp add: and_15 take_bit_eq_mod)

lemma variant_bits: "((b::nat) AND 0x3f) OR 0x80 = b mod 64 + 128"
  using or_high_bit [of 6 7 b] by (simp add: and_63 take_bit_eq_mod)

lemma uuidv4_arith:
  "uuidv4 rnds = unsafeStringify (rnds[6 := rnds ! 6 mod 16 + 64, 8 := rnds ! 8 mod 64 + 128])"
  by (simp add: uuidv4_def version_bits variant_bits)

lemma bounded_Nil: "bounded [] = {[]}"
  by (auto simp: bounded_def)

lemma bounded_Cons: "bounded (b # bnds) = (\<lambda>(x, xs). x # xs) ` ({..<b} \<times> bounded bnds)"
  by (auto simp: bounded_def list_all2_Cons2)

lemma card_bounded: "finite (bounded bnds) \<and> card (bounded bnds) = prod_list bnds"
proof (induction bnds)
  case Nil
  then show ?case by (simp add: bounded_Nil)
next
  case (Cons b bnds)
  have inj: "inj_on (\<lambda>(x, xs). x # xs) ({..<b} \<times> bounded bnds)"
    by (auto simp: inj_on_def)
  from Cons show ?case
    by (simp add: bounded_Cons card_image [OF inj] card_cartesian_product)
qed

lemma bounded_replicate:
  "bounded (replicate n c) = {bs. length bs = n \<and> (\<forall>b\<in>set bs. b < c)}"
  by (auto simp: bounded_def list_all2_conv_all_nth all_set_conv_all_nth)

lemma random_bytes_bounded: "random_bytes = bounded (replicate 16 256)"
  by (simp add: random_bytes_def bounded_replicate)

lemma card_random_bytes: "card random_bytes = 2 ^ 128"
proof -
  have "card random_bytes = (256::nat) ^ 16"
    by (simp add: random_bytes_bounded card_bounded prod_list_replicate)
  also have "\<dots> = 2 ^ 128" by simp
  finally show ?thesis .
qed

lemma prod_uuid_bounds: "prod_list uuid_bounds = 2 ^ 122"
proof -
  have "prod_list uuid_bounds = 256 ^ 6 * (16 * 256 * 64) * 256 ^ 7"
    by (simp add: uuid_bounds_def prod_list_replicate)
  also have "\<dots> = (2::nat) ^ 122" by simp
  finally show ?thesis .
qed

lemma uuidv4_reduce:
  assumes "length rnds = 16"
  shows "uuidv4 (reduce rnds) = uuidv4 rnds"
proof -
  have "\<And>a b c d. rnds[6 := a, 8 := b, 6 := c, 8 := d] = rnds[6 := c, 8 := d]"
    by (metis list_update_overwrite list_update_swap)
  with assms show ?thesis by (simp add: uuidv4_arith reduce_def)
qed

lemma bounded_nth:
  "bs \<in> bounded bnds \<longleftrightarrow> length bs = length bnds \<and> (\<forall>i<length bnds. bs ! i < bnds ! i)"
  by (auto simp: bounded_def list_all2_conv_all_nth)

lemma uuid_bounds_nth:
  "i < 16 \<Longrightarrow> uuid_bounds ! i = (if i = 6 then 16 else if i = 8 then 64 else 256)"
  by (auto simp: uuid_bounds_def nth_append nth_Cons')

lemma reduce_bounded:
  assumes "rnds \<in> random_bytes"
  shows "reduce rnds \<in> bounded uuid_bounds"
proof -
  from assms have l: "length rnds = 16" and b: "\<And>i. i < 16 \<Longrightarrow> rnds ! i < 256"
    by (simp_all add: random_bytes_def all_set_conv_all_nth)
  have len: "length uuid_bounds = 16" by (simp add: uuid_bounds_def)
  show ?thesis
    unfolding bounded_nth len
  proof (intro conjI allI impI)
    show "length (reduce rnds) = 16" by (simp add: reduce_def l)
  next
    fix i :: nat assume i: "i < 16"
    show "reduce rnds ! i < uuid_bounds ! i"
      using b [OF i] i l by (simp add: uuid_bounds_nth reduce_def nth_list_update)
  qed
qed

lemma bounded_random:
  assumes "bs \<in> bounded uuid_bounds"
  shows "bs \<in> random_bytes"
proof -
  have len: "length uuid_bounds = 16" by (simp add: uuid_bounds_def)
  from assms have l: "length bs = 16" and b: "\<And>i. i < 16 \<Longrightarrow> bs ! i < uuid_bounds ! i"
    by (simp_all add: bounded_nth len)
  have "\<And>i. i < 16 \<Longrightarrow> bs ! i < 256"
  proof -
    fix i :: nat assume i: "i < 16"
    from b [OF i] i show "bs ! i < 256" by (simp add: uuid_bounds_nth split: if_splits)
  qed
  with l show ?thesis by (simp add: random_bytes_def all_set_conv_all_nth)
qed

lemma uuid_tokens_bounded: "uuid_tokens = uuidv4 ` bounded uuid_bounds"
proof (intro set_eqI iffI)
  fix t assume "t \<in> uuid_tokens"
  then obtain rnds where r: "rnds \<in> random_bytes" and t: "t = uuidv4 rnds"
    by (auto simp: uuid_tokens_def)
  from r have "length rnds = 16" by (simp add: random_bytes_def)
  then have "t = uuidv4 (reduce rnds)" by (simp add: t uuidv4_reduce)
  with reduce_bounded [OF r] show "t \<in> uuidv4 ` bounded uuid_bounds" by blast
next
  fix t assume "t \<in> uuidv4 ` bounded uuid_bounds"
  then obtain bs where "bs \<in> bounded uuid_bounds" and "t = uuidv4 bs" by blast
  with bounded_random show "t \<in> uuid_tokens" by (auto simp: uuid_tokens_def)
qed

lemma hex_digit_inj:
  assumes "d < 16" and "e < 16" and "hex_digit d = hex_digit e"
  shows "d = e"
proof -
  have "distinct ''0123456789abcdef''" by simp
  moreover have "d < length ''0123456789abcdef''" "e < length ''0123456789abcdef''"
    using assms by simp_all
  ultimately show ?thesis
    using assms(3) unfolding hex_digit_def by (simp only: nth_eq_iff_index_eq)
qed

lemma byte_hex_inj:
  assumes "a < 256" and "b < 256" and "byte_hex a = byte_hex b"
  shows "a = b"
proof -
  from assms(3) have h: "hex_digit (a div 16) = hex_digit (b div 16)"
    and l: "hex_digit (a mod 16) = hex_digit (b mod 16)"
    by (simp_all add: byte_hex_def)
  from assms(1,2) have "a div 16 < 16" "b div 16 < 16" by simp_all
  then have "a div 16 = b div 16" using h by (rule hex_digit_inj)
  moreover have "a mod 16 = b mod 16" by (rule hex_digit_inj [OF _ _ l]) simp_all
  ultimately show ?thesis by (metis div_mult_mod_eq)
qed

lemma length_hex: "length (concat (map byte_hex xs)) = 2 * length xs"
  by (induction xs) (simp_all add: byte_hex_def)

lemma concat_hex_inj:
  assumes "length xs = length ys"
    and "\<forall>x\<in>set xs. x < 256" and "\<forall>y\<in>set ys. y < 256"
    and "concat (map byte_hex xs) = concat (map byte_hex ys)"
  shows "xs = ys"
  using assms
proof (induction xs ys rule: list_induct2)
  case Nil
  then show ?case by simp
next
  case (Cons x xs y ys)
  have "length (byte_hex x) = length (byte_hex y)" by (simp add: byte_hex_def)
  moreover from Cons.prems(3)
  have "byte_hex x @ concat (map byte_hex xs) = byte_hex y @ concat (map byte_hex ys)" by simp
  ultimately have "byte_hex x = byte_hex y"
    and rest: "concat (map byte_hex xs) = concat (map byte_hex ys)"
    by simp_all
  with Cons.prems(1,2) have "x = y" by (simp add: byte_hex_inj)
  moreover from Cons.IH Cons.prems(1,2) rest have "xs = ys" by simp
  ultimately show ?case by simp
qed

lemma stringify_inj:
  assumes la: "length a = 16" and lb: "length b = 16"
    and ba: "\<forall>x\<in>set a. x < 256" and bb: "\<forall>x\<in>set b. x < 256"
    and eq: "unsafeStringify a = unsafeStringify b"
  shows "a = b"
proof -
  have seg: "take n (drop k a) = take n (drop k b)"
    if "concat (map byte_hex (take n (drop k a))) = concat (map byte_hex (take n (drop k b)))"
    for n k
  proof (rule concat_hex_inj [OF _ _ _ that])
    show "length (take n (drop k a)) = length (take n (drop k b))" by (simp add: la lb)
    show "\<forall>x\<in>set (take n (drop k a)). x < 256"
      using ba by (meson in_set_dropD in_set_takeD)
    show "\<forall>x\<in>set (take n (drop k b)). x < 256"
      using bb by (meson in_set_dropD in_set_takeD)
  qed
  from eq have e:
    "concat (map byte_hex (take 4 (drop 0 a))) = concat (map byte_hex (take 4 (drop 0 b)))"
    "concat (map byte_hex (take 2 (drop 4 a))) = concat (map byte_hex (take 2 (drop 4 b)))"
    "concat (map byte_hex (take 2 (drop 6 a))) = concat (map byte_hex (take 2 (drop 6 b)))"
    "concat (map byte_hex (take 2 (drop 8 a))) = concat (map byte_hex (take 2 (drop 8 b)))"
    "concat (map byte_hex (take 6 (drop 10 a))) = concat (map byte_hex (take 6 (drop 10 b)))"
    unfolding unsafeStringify_def by (simp_all add: length_hex la lb)
  note s = e [THEN seg]
  have parts: "\<And>xs :: nat list. length xs = 16 \<Longrightarrow>
      xs = take 4 (drop 0 xs) @ take 2 (drop 4 xs) @ take 2 (drop 6 xs) @ take 2 (drop 8 xs)
            @ take 6 (drop 10 xs)"
    by (simp add: list_eq_iff_nth_eq nth_append min_def)
  from parts [OF la] parts [OF lb] s show ?thesis by metis
qed

lemma uuidv4_inj: "inj_on uuidv4 (bounded uuid_bounds)"
proof (rule inj_onI)
  fix bs cs
  assume bs: "bs \<in> bounded uuid_bounds" and cs: "cs \<in> bounded uuid_bounds"
    and eq: "uuidv4 bs = uuidv4 cs"
  have len: "length uuid_bounds = 16" by (simp add: uuid_bounds_def)
  from bs cs have l: "length bs = 16" "length cs = 16"
    and b: "\<And>i. i < 16 \<Longrightarrow> bs ! i < uuid_bounds ! i"
    and c: "\<And>i. i < 16 \<Longrightarrow> cs ! i < uuid_bounds ! i"
    by (simp_all add: bounded_nth len)
  define m where "m = (\<lambda>xs :: nat list. xs[6 := xs ! 6 mod 16 + 64, 8 := xs ! 8 mod 64 + 128])"
  have small: "\<forall>x\<in>set (m xs). x < 256" if "xs \<in> bounded uuid_bounds" for xs
  proof -
    from that have lx: "length xs = 16" and bx: "\<And>i. i < 16 \<Longrightarrow> xs ! i < uuid_bounds ! i"
      by (simp_all add: bounded_nth len)
    have "m xs ! i < 256" if i: "i < 16" for i
      using bx [OF i] i lx by (simp add: m_def nth_list_update uuid_bounds_nth split: if_splits)
    then show ?thesis by (simp add: all_set_conv_all_nth m_def lx)
  qed
  have "m bs = m cs"
  proof (rule stringify_inj)
    show "length (m bs) = 16" "length (m cs) = 16" by (simp_all add: m_def l)
    show "\<forall>x\<in>set (m bs). x < 256" by (rule small [OF bs])
    show "\<forall>x\<in>set (m cs). x < 256" by (rule small [OF cs])
    show "unsafeStringify (m bs) = unsafeStringify (m cs)"
      using eq by (simp add: uuidv4_arith m_def)
  qed
  then have nth: "\<And>i. m bs ! i = m cs ! i" by simp
  show "bs = cs"
  proof (rule nth_equalityI)
    show "length bs = length cs" by (simp add: l)
  next
    fix i assume "i < length bs"
    then have i: "i < 16" by (simp add: l)
    from nth [of i] b [OF i] c [OF i] i l show "bs ! i = cs ! i"
      by (simp add: m_def nth_list_update uuid_bounds_nth split: if_splits)
  qed
qed

lemma card_uuid_tokens: "card uuid_tokens = 2 ^ 122"
proof -
  have "card uuid_tokens = card (bounded uuid_bounds)"
    unfolding uuid_tokens_bounded by (rule card_image [OF uuidv4_inj])
  also have "\<dots> = 2 ^ 122" by (simp add: card_bounded prod_uuid_bounds)
  finally show ?thesis .
qed


lemma uuidv4_zero: "uuidv4 zero_bytes = uuid_zero"
  by (simp add: uuidv4_arith unsafeStringify_def byte_hex_def hex_digit_def zero_bytes_def
        uuid_zero_def)

lemma zero_bytes_random: "zero_bytes \<in> random_bytes"
  by (simp add: random_bytes_def zero_bytes_def)

text \<open>
  C8, as amended. \<^verbatim>\<open>uuidv4()\<close> makes of the 16 random bytes it draws, one of \<open>2^128\<close>
  lists, one of exactly \<open>2^122\<close> tokens: six of the 128 bits are fixed by the version
  and the variant. When the configured lifetime parses to \<open>days\<close>, the expiry is a valid
  date and the hash is not yet in the table, \<^verbatim>\<open>generateRefreshToken\<close> appends one row:
  the SHA-256 hash of the token, the owner, the context, \<open>last_used_at = now\<close>,
  \<open>expires_at = now + days\<close> days, not revoked; it returns the plaintext, and the store
  depends on the plaintext through its hash only. \<open>days\<close> is 7 when
  \<^verbatim>\<open>JWT_REFRESH_TOKEN_EXPIRES_DAYS\<close> is unset or empty.
\<close>

theorem generateRefreshToken_row:
  assumes "rnds \<in> random_bytes"
    and "expiryDays env = Some days"
    and "\<bar>now + days * 24 * 60 * 60 * 1000\<bar> \<le> 8640000000000000"
    and "H (uuidv4 rnds) \<notin> set (map token_hash (refresh_tokens s))"
  shows "generateRefreshToken H env rnds now user options s =
           (Inr (uuidv4 rnds),
            s\<lparr>refresh_tokens := refresh_tokens s @
                 [\<lparr>rt_id = next_id (map rt_id (refresh_tokens s)),
                   token_hash = H (uuidv4 rnds),
                   rt_user = user_id (pu_user user),
                   rt_device_type = deviceType options,
                   device_info = deviceInfo options,
                   ip_address = ipAddress options,
                   expires_at = now + days * 24 * 60 * 60 * 1000,
                   last_used_at = Some now,
                   revoked = False,
                   revoked_at = None,
                   revoked_reason = None\<rparr>]\<rparr>)
         \<and> uuidv4 rnds \<in> uuid_tokens
         \<and> card random_bytes = 2 ^ 128
         \<and> card uuid_tokens = 2 ^ 122
         \<and> (\<not> truthy (JWT_REFRESH_TOKEN_EXPIRES_DAYS env) \<longrightarrow> days = 7)
         \<and> (\<forall>other. H (uuidv4 other) = H (uuidv4 rnds) \<longrightarrow>
               snd (generateRefreshToken H env other now user options s) =
               snd (generateRefreshToken H env rnds now user options s))"
proof (intro conjI allI impI)
  show "generateRefreshToken H env rnds now user options s =
           (Inr (uuidv4 rnds),
            s\<lparr>refresh_tokens := refresh_tokens s @
                 [\<lparr>rt_id = next_id (map rt_id (refresh_tokens s)),
                   token_hash = H (uuidv4 rnds),
                   rt_user = user_id (pu_user user),
                   rt_device_type = deviceType options,
                   device_info = deviceInfo options,
                   ip_address = ipAddress options,
                   expires_at = now + days * 24 * 60 * 60 * 1000,
                   last_used_at = Some now,
                   revoked = False,
                   revoked_at = None,
                   revoked_reason = None\<rparr>]\<rparr>)"
    using assms(2,3,4)
    by (simp add: generateRefreshToken_def create_refresh_token_def new_Date_def Let_def)
next
  from assms(1) show "uuidv4 rnds \<in> uuid_tokens" by (simp add: uuid_tokens_def)
next
  show "card random_bytes = 2 ^ 128" by (rule card_random_bytes)
next
  show "card uuid_tokens = 2 ^ 122" by (rule card_uuid_tokens)
next
  assume "\<not> truthy (JWT_REFRESH_TOKEN_EXPIRES_DAYS env)"
  from expiryDays_default [OF this] assms(2) show "days = 7" by simp
next
  fix other assume "H (uuidv4 other) = H (uuidv4 rnds)"
  then show "snd (generateRefreshToken H env other now user options s) =
               snd (generateRefreshToken H env rnds now user options s)"
    by (simp add: generateRefreshToken_def split: prod.splits sum.splits)
qed

text \<open>
  With the lifetime unset, a token issued at 1000 from sixteen zero bytes is
  \<^verbatim>\<open>00000000-0000-4000-8000-000000000000\<close> and expires 7 days later.
\<close>

theorem generateRefreshToken_row_witness:
  "generateRefreshToken (\<lambda>x. x) (env_example None None) zero_bytes 1000 owner_example ios_options
       token_store_example =
     (Inr ''00000000-0000-4000-8000-000000000000'',
      token_store_example\<lparr>refresh_tokens := refresh_tokens token_store_example @
         [\<lparr>rt_id = 4, token_hash = ''00000000-0000-4000-8000-000000000000'', rt_user = 1,
           rt_device_type = Some Ios,
           device_info = Some ''app/1.0'', ip_address = Some ''10.0.0.1'',
           expires_at = 1000 + 7 * 24 * 60 * 60 * 1000, last_used_at = Some 1000,
           revoked = False, revoked_at = None, revoked_reason = None\<rparr>]\<rparr>)
   \<and> ''00000000-0000-4000-8000-000000000000'' \<in> uuid_tokens
   \<and> card uuid_tokens = 2 ^ 122"
proof -
  have 1: "expiryDays (env_example None None) = Some 7"
    by (simp add: parse_eval)
  have 2: "\<bar>1000 + 7 * 24 * 60 * 60 * 1000\<bar> \<le> (8640000000000000 :: int)"
    by simp
  have 3: "(\<lambda>x. x) (uuidv4 zero_bytes) \<notin> set (map token_hash (refresh_tokens token_store_example))"
    by (simp add: token_eval uuidv4_zero uuid_zero_def)
  note t = generateRefreshToken_row [where H = "\<lambda>x. x" and env = "env_example None None"
         and days = 7 and now = 1000 and rnds = zero_bytes and s = token_store_example
         and user = owner_example and options = ios_options, OF zero_bytes_random 1 2 3]
  from t [THEN conjunct1] t [THEN conjunct2, THEN conjunct1]
       t [THEN conjunct2, THEN conjunct2, THEN conjunct2, THEN conjunct1]
  show ?thesis
    by (simp add: token_eval generate_eval uuidv4_zero uuid_zero_def)
qed

text \<open>
  C8 as stated fails twice. When \<^verbatim>\<open>JWT_REFRESH_TOKEN_EXPIRES_DAYS\<close> is \<^verbatim>\<open>30\<close> the row
  expires 30 days after issuance, not 7. And the tokens are fewer than \<open>2^128\<close>: random
  bytes that differ in the bits \<^verbatim>\<open>uuidv4\<close> overwrites give the same token.
\<close>

theorem generateRefreshToken_days_and_entropy_counterexample:
  "expires_at (last (refresh_tokens (snd (generateRefreshToken (\<lambda>x. x)
       (env_example (Some ''30'') None) zero_bytes 1000 owner_example ios_options
       token_store_example))))
     = 1000 + 30 * 24 * 60 * 60 * 1000
   \<and> expires_at (last (refresh_tokens (snd (generateRefreshToken (\<lambda>x. x)
       (env_example (Some ''30'') None) zero_bytes 1000 owner_example ios_options
       token_store_example))))
     \<noteq> 1000 + 7 * 24 * 60 * 60 * 1000
   \<and> card uuid_tokens < 2 ^ 128
   \<and> zero_bytes[6 := 16] \<in> random_bytes
   \<and> zero_bytes[6 := 16] \<noteq> zero_bytes
   \<and> uuidv4 (zero_bytes[6 := 16]) = uuidv4 zero_bytes"
proof -
  have days: "expires_at (last (refresh_tokens (snd (generateRefreshToken (\<lambda>x. x)
       (env_example (Some ''30'') None) zero_bytes 1000 owner_example ios_options
       token_store_example))))
     = 1000 + 30 * 24 * 60 * 60 * 1000"
    by (simp add: parse_eval generate_eval token_eval uuidv4_zero uuid_zero_def)
  have fewer: "card uuid_tokens < 2 ^ 128"
    by (simp add: card_uuid_tokens)
  have same: "zero_bytes[6 := 16] \<in> random_bytes" "zero_bytes[6 := 16] \<noteq> zero_bytes"
    "uuidv4 (zero_bytes[6 := 16]) = uuidv4 zero_bytes"
    by (simp_all add: random_bytes_def zero_bytes_def uuidv4_arith)
  from days fewer same show ?thesis by simp
qed

lemma superseded_iff:
  "superseded h s \<longleftrightarrow>
     (\<exists>r\<in>set (refresh_tokens s). token_hash r = h) \<and>
     (\<forall>r\<in>set (refresh_tokens s). token_hash r = h \<longrightarrow> revoked r)"
  by (simp add: superseded_def list_ex_iff list_all_iff)

subsection \<open>Superseded hashes stay superseded\<close>

lemma validate_superseded:
  assumes "superseded (H raw) s"
  shows "fst (validateRefreshToken H t raw s) = None"
proof (cases "find (\<lambda>r. token_hash r = H raw) (refresh_tokens s)")
  case None
  then show ?thesis by (simp add: validateRefreshToken_def)
next
  case (Some r)
  then have "r \<in> set (refresh_tokens s)" and "token_hash r = H raw"
    by (auto simp: find_Some_iff)
  with assms have "revoked r" by (simp add: superseded_iff)
  with Some show ?thesis by (simp add: validateRefreshToken_def)
qed

lemma validate_absent:
  assumes "H raw \<notin> set (map token_hash (refresh_tokens s))"
  shows "fst (validateRefreshToken H t raw s) = None"
proof -
  from assms have "find (\<lambda>r. token_hash r = H raw) (refresh_tokens s) = None"
    by (force simp: find_None_iff)
  then show ?thesis by (simp add: validateRefreshToken_def)
qed

lemma superseded_map:
  assumes "superseded h s"
    and "refresh_tokens s' = map g (refresh_tokens s)"
    and "\<And>r. token_hash (g r) = token_hash r"
    and "\<And>r. revoked r \<Longrightarrow> revoked (g r)"
  shows "superseded h s'"
  using assms(1) unfolding superseded_iff assms(2)
  by (auto simp: assms(3,4))

lemma set_update_subset: "set (update wh f rows) \<subseteq> set rows \<union> f ` set rows"
  by (induction rows) auto

lemma update_keeps_key:
  assumes "\<And>r. k (f r) = k r" and "x \<in> set rows"
  shows "\<exists>y\<in>set (update wh f rows). k y = k x"
  using assms(2)
proof (induction rows)
  case Nil
  then show ?case by simp
next
  case (Cons a rows)
  then show ?case by (auto simp: assms(1))
qed

lemma revoke_rows:
  "refresh_tokens (snd (revokeRefreshToken H now raw reason s)) =
     map (\<lambda>r. if token_hash r = H raw
               then r\<lparr>revoked := True, revoked_at := Some now, revoked_reason := Some reason\<rparr>
               else r) (refresh_tokens s)"
  by (simp add: revokeRefreshToken_def updateMany_def)

lemma revoke_hashes:
  "map token_hash (refresh_tokens (snd (revokeRefreshToken H now raw reason s))) =
     map token_hash (refresh_tokens s)"
  by (simp add: revoke_rows comp_def cong: if_cong)

lemma revoke_supersedes:
  assumes "\<exists>r\<in>set (refresh_tokens s). token_hash r = H raw"
  shows "superseded (H raw) (snd (revokeRefreshToken H now raw reason s))"
proof -
  define g :: "refresh_token_row \<Rightarrow> refresh_token_row" where
    "g = (\<lambda>r. if token_hash r = H raw
               then r\<lparr>revoked := True, revoked_at := Some now, revoked_reason := Some reason\<rparr>
               else r)"
  have rows: "refresh_tokens (snd (revokeRefreshToken H now raw reason s)) = map g (refresh_tokens s)"
    by (simp add: revoke_rows g_def)
  have g: "\<And>r. token_hash (g r) = token_hash r" "\<And>r. token_hash r = H raw \<Longrightarrow> revoked (g r)"
    by (simp_all add: g_def)
  from assms obtain r where r: "r \<in> set (refresh_tokens s)" "token_hash r = H raw" by blast
  then have "g r \<in> set (map g (refresh_tokens s))" "token_hash (g r) = H raw"
    by (simp_all add: g(1))
  then have ex: "\<exists>y\<in>set (map g (refresh_tokens s)). token_hash y = H raw" by blast
  have all: "\<forall>y\<in>set (map g (refresh_tokens s)). token_hash y = H raw \<longrightarrow> revoked y"
  proof (intro ballI impI)
    fix y assume "y \<in> set (map g (refresh_tokens s))" and hy: "token_hash y = H raw"
    then obtain z where z: "y = g z" by auto
    with hy g(1) [of z] have "token_hash z = H raw" by simp
    with g(2) z show "revoked y" by simp
  qed
  from ex all show ?thesis unfolding superseded_iff rows by (rule conjI)
qed

lemma rotate_eq:
  "rotateRefreshToken H env rnds now oldRawToken user options s =
     generateRefreshToken H env rnds now user options
       (snd (revokeRefreshToken H now oldRawToken Rotated s))"
  by (simp add: rotateRefreshToken_def case_prod_beta)

lemma superseded_revoke:
  assumes "superseded h s"
  shows "superseded h (snd (revokeRefreshToken H now raw reason s))"
  by (rule superseded_map [OF assms revoke_rows]) simp_all

lemma superseded_revokeAll:
  assumes "superseded h s"
  shows "superseded h (snd (revokeAllUserRefreshTokens now userId s))"
  using assms by (simp add: revokeAllUserRefreshTokens_def updateMany_where_def)

lemma generate_cases:
  "generateRefreshToken H env rnds now user options s =
     (case expiryDays env of
        None \<Rightarrow> (Inl InvalidTimestamp, s)
      | Some days \<Rightarrow>
          (case new_Date (now + days * 24 * 60 * 60 * 1000) of
             None \<Rightarrow> (Inl InvalidTimestamp, s)
           | Some e \<Rightarrow>
               if H (uuidv4 rnds) \<in> set (map token_hash (refresh_tokens s))
               then (Inl UniqueViolation, s)
               else (Inr (uuidv4 rnds),
                     s\<lparr>refresh_tokens := refresh_tokens s @
                       [\<lparr>rt_id = next_id (map rt_id (refresh_tokens s)),
                         token_hash = H (uuidv4 rnds),
                         rt_user = user_id (pu_user user),
                         rt_device_type = deviceType options,
                         device_info = deviceInfo options,
                         ip_address = ipAddress options,
                         expires_at = e,
                         last_used_at = Some now,
                         revoked = False,
                         revoked_at = None,
                         revoked_reason = None\<rparr>]\<rparr>)))"
  by (simp add: generateRefreshToken_def create_refresh_token_def Let_def split: option.splits)

lemma generate_rows:
  "refresh_tokens (snd (generateRefreshToken H env rnds now user options s)) = refresh_tokens s
   \<or> (H (uuidv4 rnds) \<notin> set (map token_hash (refresh_tokens s)) \<and>
      (\<exists>row. token_hash row = H (uuidv4 rnds) \<and>
         refresh_tokens (snd (generateRefreshToken H env rnds now user options s))
           = refresh_tokens s @ [row]))"
  unfolding generate_cases
  by (cases "expiryDays env"; cases "new_Date (now + the (expiryDays env) * 24 * 60 * 60 * 1000)";
      cases "H (uuidv4 rnds) \<in> set (map token_hash (refresh_tokens s))") simp_all

lemma superseded_generate:
  assumes "superseded h s"
  shows "superseded h (snd (generateRefreshToken H env rnds now user options s))"
proof -
  from generate_rows [of H env rnds now user options s]
  show ?thesis
  proof
    assume "refresh_tokens (snd (generateRefreshToken H env rnds now user options s)) = refresh_tokens s"
    with assms show ?thesis by (simp add: superseded_iff)
  next
    assume "H (uuidv4 rnds) \<notin> set (map token_hash (refresh_tokens s)) \<and>
      (\<exists>row. token_hash row = H (uuidv4 rnds) \<and>
         refresh_tokens (snd (generateRefreshToken H env rnds now user options s))
           = refresh_tokens s @ [row])"
    then obtain row where fresh: "H (uuidv4 rnds) \<notin> set (map token_hash (refresh_tokens s))"
      and row: "token_hash row = H (uuidv4 rnds)"
      and rows: "refresh_tokens (snd (generateRefreshToken H env rnds now user options s))
           = refresh_tokens s @ [row]" by blast
    from assms have "h \<in> set (map token_hash (refresh_tokens s))"
      by (auto simp: superseded_iff)
    with fresh row have "token_hash row \<noteq> h" by auto
    with assms show ?thesis unfolding superseded_iff rows by auto
  qed
qed

lemma superseded_touch:
  assumes "superseded h s"
  shows "superseded h (s\<lparr>refresh_tokens :=
         update (\<lambda>r. rt_id r = i) (\<lambda>r. r\<lparr>last_used_at := Some now\<rparr>) (refresh_tokens s)\<rparr>)"
proof -
  let ?f = "\<lambda>r :: refresh_token_row. r\<lparr>last_used_at := Some now\<rparr>"
  let ?rows' = "update (\<lambda>r. rt_id r = i) ?f (refresh_tokens s)"
  from assms obtain x where x: "x \<in> set (refresh_tokens s)" "token_hash x = h"
    by (auto simp: superseded_iff)
  have "\<exists>y\<in>set ?rows'. token_hash y = token_hash x"
    by (rule update_keeps_key [OF _ x(1)]) simp
  with x have ex: "\<exists>y\<in>set ?rows'. token_hash y = h" by simp
  have all: "\<forall>y\<in>set ?rows'. token_hash y = h \<longrightarrow> revoked y"
  proof (intro ballI impI)
    fix y assume y: "y \<in> set ?rows'" and hy: "token_hash y = h"
    from y set_update_subset [of "\<lambda>r. rt_id r = i" ?f "refresh_tokens s"]
    have "y \<in> set (refresh_tokens s) \<or> (\<exists>z\<in>set (refresh_tokens s). y = ?f z)" by auto
    then show "revoked y"
    proof
      assume "y \<in> set (refresh_tokens s)"
      with assms hy show ?thesis by (simp add: superseded_iff)
    next
      assume "\<exists>z\<in>set (refresh_tokens s). y = ?f z"
      then obtain z where z: "z \<in> set (refresh_tokens s)" "y = ?f z" by blast
      with hy have "token_hash z = h" by simp
      with assms z(1) have "revoked z" by (simp add: superseded_iff)
      with z(2) show ?thesis by simp
    qed
  qed
  from ex all show ?thesis by (simp add: superseded_iff)
qed

lemma superseded_step:
  assumes "superseded h s"
  shows "superseded h (token_step H env c s)"
proof (cases c)
  case (Issue rnds now user options)
  with superseded_generate [OF assms] show ?thesis by simp
next
  case (Revoke rawToken reason now)
  with superseded_revoke [OF assms] show ?thesis by simp
next
  case (RevokeAll userId now)
  with superseded_revokeAll [OF assms] show ?thesis by simp
next
  case (Rotate rnds now oldRawToken user options)
  have "superseded h (snd (generateRefreshToken H env rnds now user options
           (snd (revokeRefreshToken H now oldRawToken Rotated s))))"
    by (rule superseded_generate [OF superseded_revoke [OF assms]])
  then show ?thesis
    by (simp add: Rotate rotate_eq)
next
  case (Touch i now)
  with superseded_touch [OF assms] show ?thesis by simp
qed

lemma superseded_run:
  assumes "superseded h s"
  shows "superseded h (token_run H env cs s)"
  using assms
proof (induction cs arbitrary: s)
  case Nil
  then show ?case by simp
next
  case (Cons c cs)
  from Cons.IH [OF superseded_step [OF Cons.prems]] show ?case by simp
qed

lemma generate_success:
  assumes "generateRefreshToken H env rnds now user options s = (Inr new, s')"
  obtains days where "expiryDays env = Some days"
    and "new = uuidv4 rnds"
    and "H (uuidv4 rnds) \<notin> set (map token_hash (refresh_tokens s))"
    and "s' = s\<lparr>refresh_tokens := refresh_tokens s @
                       [\<lparr>rt_id = next_id (map rt_id (refresh_tokens s)),
                         token_hash = H (uuidv4 rnds),
                         rt_user = user_id (pu_user user),
                         rt_device_type = deviceType options,
                         device_info = deviceInfo options,
                         ip_address = ipAddress options,
                         expires_at = now + days * 24 * 60 * 60 * 1000,
                         last_used_at = Some now,
                         revoked = False,
                         revoked_at = None,
                         revoked_reason = None\<rparr>]\<rparr>"
  using assms unfolding generate_cases
  by (auto simp: new_Date_def split: option.splits if_splits)

lemma generate_failure:
  assumes "fst (generateRefreshToken H env rnds now user options s) = Inl e"
  shows "snd (generateRefreshToken H env rnds now user options s) = s"
  using assms unfolding generate_cases
  by (simp split: option.splits if_splits)

text \<open>
  C2, as amended. For an issued token (a row has the hash of the old plaintext),
  whether \<^verbatim>\<open>rotateRefreshToken\<close> returns or throws: the old plaintext validates at no time
  in the store between the revoke and the create, in the store the call leaves, and in
  any store a later run of token calls leads to. When the call returns, it returns the
  token \<^verbatim>\<open>uuidv4()\<close> made; that plaintext validates neither before the call nor between
  the revoke and the create, so in no store do both validate; the call has appended one
  row for it, of the user, expiring \<open>days\<close> days after \<open>now\<close> for the configured lifetime
  \<open>days\<close>; and in the store the call leaves the new plaintext validates exactly at the
  times up to that expiry: at the time of the rotation when \<open>days\<close> is not negative, and
  at no time from the rotation on when it is. When the call throws, what it leaves is the
  store after the revoke.
\<close>

theorem rotateRefreshToken_supersedes:
  assumes "\<exists>r\<in>set (refresh_tokens s). token_hash r = H old"
  shows "(\<forall>t. fst (validateRefreshToken H t old (snd (revokeRefreshToken H now old Rotated s))) = None)
     \<and> (\<forall>t env' calls.
           fst (validateRefreshToken H t old
                 (token_run H env' calls
                    (snd (rotateRefreshToken H env rnds now old user options s)))) = None)
     \<and> (\<forall>new. fst (rotateRefreshToken H env rnds now old user options s) = Inr new \<longrightarrow>
           new = uuidv4 rnds
         \<and> (\<forall>t. fst (validateRefreshToken H t new s) = None)
         \<and> (\<forall>t. fst (validateRefreshToken H t new
                       (snd (revokeRefreshToken H now old Rotated s))) = None)
         \<and> (\<exists>row days.
               refresh_tokens (snd (rotateRefreshToken H env rnds now old user options s))
                 = refresh_tokens (snd (revokeRefreshToken H now old Rotated s)) @ [row]
             \<and> token_hash row = H new \<and> rt_user row = user_id (pu_user user) \<and> \<not> revoked row
             \<and> expiryDays env = Some days \<and> expires_at row = now + days * 24 * 60 * 60 * 1000
             \<and> (\<forall>t. fst (validateRefreshToken H t new
                           (snd (rotateRefreshToken H env rnds now old user options s))) =
                     (if t \<le> expires_at row
                      then Some \<lparr>rt_row = row,
                                 rt_owner = find (\<lambda>u. user_id u = rt_user row) (users s)\<rparr>
                      else None))
             \<and> (0 \<le> days \<longrightarrow>
                   fst (validateRefreshToken H now new
                         (snd (rotateRefreshToken H env rnds now old user options s))) =
                     Some \<lparr>rt_row = row,
                           rt_owner = find (\<lambda>u. user_id u = rt_user row) (users s)\<rparr>)
             \<and> (days < 0 \<longrightarrow>
                   (\<forall>t\<ge>now. fst (validateRefreshToken H t new
                         (snd (rotateRefreshToken H env rnds now old user options s))) = None))))
     \<and> (\<forall>e. fst (rotateRefreshToken H env rnds now old user options s) = Inl e \<longrightarrow>
           snd (rotateRefreshToken H env rnds now old user options s)
             = snd (revokeRefreshToken H now old Rotated s))"
proof -
  let ?s1 = "snd (revokeRefreshToken H now old Rotated s)"
  let ?r = "rotateRefreshToken H env rnds now old user options s"
  have rot: "?r = generateRefreshToken H env rnds now user options ?s1"
    by (rule rotate_eq)
  have sup1: "superseded (H old) ?s1"
    by (rule revoke_supersedes [where H = H and raw = old, OF assms])
  have sup2: "superseded (H old) (snd ?r)"
    unfolding rot by (rule superseded_generate [OF sup1])
  have a: "\<forall>t. fst (validateRefreshToken H t old ?s1) = None"
    using validate_superseded [where H = H and raw = old, OF sup1] by simp
  have b: "\<forall>t env' calls.
      fst (validateRefreshToken H t old (token_run H env' calls (snd ?r))) = None"
    using validate_superseded [where H = H and raw = old, OF superseded_run [OF sup2]] by simp
  let ?window = "\<lambda>new row days.
               refresh_tokens (snd ?r) = refresh_tokens ?s1 @ [row]
             \<and> token_hash row = H new \<and> rt_user row = user_id (pu_user user) \<and> \<not> revoked row
             \<and> expiryDays env = Some days \<and> expires_at row = now + days * 24 * 60 * 60 * 1000
             \<and> (\<forall>t. fst (validateRefreshToken H t new (snd ?r)) =
                     (if t \<le> expires_at row
                      then Some \<lparr>rt_row = row,
                                 rt_owner = find (\<lambda>u. user_id u = rt_user row) (users s)\<rparr>
                      else None))
             \<and> (0 \<le> days \<longrightarrow>
                   fst (validateRefreshToken H now new (snd ?r)) =
                     Some \<lparr>rt_row = row,
                           rt_owner = find (\<lambda>u. user_id u = rt_user row) (users s)\<rparr>)
             \<and> (days < 0 \<longrightarrow>
                   (\<forall>t\<ge>now. fst (validateRefreshToken H t new (snd ?r)) = None))"
  have c: "\<forall>new. fst ?r = Inr new \<longrightarrow>
           new = uuidv4 rnds
         \<and> (\<forall>t. fst (validateRefreshToken H t new s) = None)
         \<and> (\<forall>t. fst (validateRefreshToken H t new ?s1) = None)
         \<and> (\<exists>row days. ?window new row days)"
  proof (intro allI impI)
    fix new assume h: "fst ?r = Inr new"
    from h have gen: "generateRefreshToken H env rnds now user options ?s1 = (Inr new, snd ?r)"
      by (simp add: rot prod_eq_iff)
    from gen obtain days where days: "expiryDays env = Some days"
      and new: "new = uuidv4 rnds"
      and fresh1: "H (uuidv4 rnds) \<notin> set (map token_hash (refresh_tokens ?s1))"
      and s2: "snd ?r = ?s1\<lparr>refresh_tokens := refresh_tokens ?s1 @
                       [\<lparr>rt_id = next_id (map rt_id (refresh_tokens ?s1)),
                         token_hash = H (uuidv4 rnds),
                         rt_user = user_id (pu_user user),
                         rt_device_type = deviceType options,
                         device_info = deviceInfo options,
                         ip_address = ipAddress options,
                         expires_at = now + days * 24 * 60 * 60 * 1000,
                         last_used_at = Some now,
                         revoked = False,
                         revoked_at = None,
                         revoked_reason = None\<rparr>]\<rparr>"
      by (rule generate_success)
    define row where "row =
       \<lparr>rt_id = next_id (map rt_id (refresh_tokens ?s1)),
        token_hash = H (uuidv4 rnds),
        rt_user = user_id (pu_user user),
        rt_device_type = deviceType options,
        device_info = deviceInfo options,
        ip_address = ipAddress options,
        expires_at = now + days * 24 * 60 * 60 * 1000,
        last_used_at = Some now,
        revoked = False,
        revoked_at = None,
        revoked_reason = None\<rparr>"
    have rows2: "refresh_tokens (snd ?r) = refresh_tokens ?s1 @ [row]"
      by (simp add: s2 row_def)
    have users2: "users (snd ?r) = users s"
      by (simp add: s2 revokeRefreshToken_def)
    have fresh: "H (uuidv4 rnds) \<notin> set (map token_hash (refresh_tokens s))"
      using fresh1 unfolding revoke_hashes .
    have before: "\<forall>t. fst (validateRefreshToken H t new s) = None"
      using validate_absent [where H = H and raw = "uuidv4 rnds", OF fresh] by (simp add: new)
    have between: "\<forall>t. fst (validateRefreshToken H t new ?s1) = None"
      using validate_absent [where H = H and raw = "uuidv4 rnds", OF fresh1] by (simp add: new)
    have none1: "find (\<lambda>r. token_hash r = H (uuidv4 rnds)) (refresh_tokens ?s1) = None"
      using fresh1 by (force simp: find_None_iff)
    have fnd: "find (\<lambda>r. token_hash r = H (uuidv4 rnds)) (refresh_tokens (snd ?r)) = Some row"
      by (simp add: rows2 find_snoc none1 row_def)
    have valid: "\<forall>t. fst (validateRefreshToken H t new (snd ?r)) =
                     (if t \<le> expires_at row
                      then Some \<lparr>rt_row = row,
                                 rt_owner = find (\<lambda>u. user_id u = rt_user row) (users s)\<rparr>
                      else None)"
      by (simp add: validateRefreshToken_def new fnd users2) (simp add: row_def)
    have fields: "token_hash row = H new \<and> rt_user row = user_id (pu_user user) \<and> \<not> revoked row"
      and expiry: "expires_at row = now + days * 24 * 60 * 60 * 1000"
      by (simp_all add: row_def new)
    have at_now: "0 \<le> days \<longrightarrow> fst (validateRefreshToken H now new (snd ?r)) =
                     Some \<lparr>rt_row = row,
                           rt_owner = find (\<lambda>u. user_id u = rt_user row) (users s)\<rparr>"
      by (simp add: valid expiry)
    have never: "days < 0 \<longrightarrow>
                   (\<forall>t\<ge>now. fst (validateRefreshToken H t new (snd ?r)) = None)"
      by (simp add: valid expiry)
    from rows2 fields days expiry valid at_now never
    have "?window new row days" by (intro conjI) simp_all
    then have "\<exists>row days. ?window new row days" by (intro exI)
    with new before between
    show "new = uuidv4 rnds
         \<and> (\<forall>t. fst (validateRefreshToken H t new s) = None)
         \<and> (\<forall>t. fst (validateRefreshToken H t new ?s1) = None)
         \<and> (\<exists>row days. ?window new row days)"
      by (intro conjI)
  qed
  have d: "\<forall>e. fst ?r = Inl e \<longrightarrow> snd ?r = ?s1"
  proof (intro allI impI)
    fix e assume "fst ?r = Inl e"
    then show "snd ?r = ?s1" unfolding rot by (rule generate_failure)
  qed
  from a b c d show ?thesis by (intro conjI)
qed

text \<open>
  Rotating \<^verbatim>\<open>T1\<close> at 1000 with the lifetime unset: \<^verbatim>\<open>T1\<close> validated before and never
  again, the new token validates afterwards and did not before. With the lifetime
  \<^verbatim>\<open>abc\<close> the expiry is an invalid date and the call throws: \<^verbatim>\<open>T1\<close> is revoked all the
  same.
\<close>

theorem rotateRefreshToken_supersedes_witness:
  "rotateRefreshToken (\<lambda>x. x) (env_example None None) zero_bytes 1000 ''T1'' owner_example
       ios_options token_store_example = (Inr uuid_zero, token_store_rotated)
   \<and> fst (validateRefreshToken (\<lambda>x. x) 500 ''T1'' token_store_example)
       = Some \<lparr>rt_row = token_row_example 1 ''T1'' 1,
               rt_owner = Some (user_example 1 ''u@example.com'')\<rparr>
   \<and> fst (validateRefreshToken (\<lambda>x. x) 500 uuid_zero token_store_example) = None
   \<and> fst (validateRefreshToken (\<lambda>x. x) 1000 ''T1''
           (snd (revokeRefreshToken (\<lambda>x. x) 1000 ''T1'' Rotated token_store_example))) = None
   \<and> fst (validateRefreshToken (\<lambda>x. x) 1000 uuid_zero
           (snd (revokeRefreshToken (\<lambda>x. x) 1000 ''T1'' Rotated token_store_example))) = None
   \<and> fst (validateRefreshToken (\<lambda>x. x) 2000 ''T1''
           (token_run (\<lambda>x. x) (env_example None None)
              [Touch 1 1500, Issue (replicate 16 1) 1600 owner_example ios_options]
              token_store_rotated)) = None
   \<and> fst (validateRefreshToken (\<lambda>x. x) 1000 uuid_zero token_store_rotated)
       = Some \<lparr>rt_row = token_row_rotated,
               rt_owner = Some (user_example 1 ''u@example.com'')\<rparr>
   \<and> fst (rotateRefreshToken (\<lambda>x. x) (env_example (Some ''abc'') None) zero_bytes 1000 ''T1''
           owner_example ios_options token_store_example) = Inl InvalidTimestamp
   \<and> fst (validateRefreshToken (\<lambda>x. x) 1000 ''T1''
           (snd (rotateRefreshToken (\<lambda>x. x) (env_example (Some ''abc'') None) zero_bytes 1000
                   ''T1'' owner_example ios_options token_store_example))) = None"
proof -
  have rot: "rotateRefreshToken (\<lambda>x. x) (env_example None None) zero_bytes 1000 ''T1''
       owner_example ios_options token_store_example = (Inr uuid_zero, token_store_rotated)"
    by (simp add: rotateRefreshToken_def token_eval generate_eval parse_eval
          token_store_rotated_def token_row_rotated_def uuidv4_zero uuid_zero_def)
  have thrown: "fst (rotateRefreshToken (\<lambda>x. x) (env_example (Some ''abc'') None) zero_bytes
       1000 ''T1'' owner_example ios_options token_store_example) = Inl InvalidTimestamp"
    by (simp add: rotateRefreshToken_def token_eval generate_eval parse_eval)
  have issued: "\<exists>r\<in>set (refresh_tokens token_store_example). token_hash r = (\<lambda>x. x) ''T1''"
    by (simp add: token_eval)
  note t = rotateRefreshToken_supersedes [where H = "\<lambda>x. x" and old = "''T1''"
      and s = token_store_example and now = 1000 and rnds = zero_bytes
      and user = owner_example and options = ios_options, OF issued]
  note u = t [where env = "env_example None None"]
  note between_old = u [THEN conjunct1, THEN spec [where x = 1000]]
  note after = u [THEN conjunct2, THEN conjunct1,
      THEN spec [where x = 2000], THEN spec [where x = "env_example None None"],
      THEN spec [where x = "[Touch 1 1500, Issue (replicate 16 1) 1600 owner_example ios_options]"]]
  have ok: "fst (rotateRefreshToken (\<lambda>x. x) (env_example None None) zero_bytes 1000 ''T1''
       owner_example ios_options token_store_example) = Inr uuid_zero"
    by (simp add: rot)
  note success = u [THEN conjunct2, THEN conjunct2, THEN conjunct1,
      THEN spec [where x = uuid_zero], THEN mp, OF ok]
  note before_new = success [THEN conjunct2, THEN conjunct1, THEN spec [where x = 500]]
  note between_new = success [THEN conjunct2, THEN conjunct2, THEN conjunct1,
      THEN spec [where x = 1000]]
  note after_throw = t [where env = "env_example (Some ''abc'') None", THEN conjunct2,
      THEN conjunct1, THEN spec [where x = 1000], THEN spec [where x = "env_example None None"],
      THEN spec [where x = "[]"]]
  have old_before: "fst (validateRefreshToken (\<lambda>x. x) 500 ''T1'' token_store_example)
       = Some \<lparr>rt_row = token_row_example 1 ''T1'' 1,
               rt_owner = Some (user_example 1 ''u@example.com'')\<rparr>"
    by (simp add: token_eval)
  have new_after: "fst (validateRefreshToken (\<lambda>x. x) 1000 uuid_zero token_store_rotated)
       = Some \<lparr>rt_row = token_row_rotated,
               rt_owner = Some (user_example 1 ''u@example.com'')\<rparr>"
    by (simp add: token_eval token_store_rotated_def token_row_rotated_def uuid_zero_def)
  from rot between_old after before_new between_new after_throw thrown old_before new_after
  show ?thesis by simp
qed

text \<open>
  C2 as stated fails when \<^verbatim>\<open>JWT_REFRESH_TOKEN_EXPIRES_DAYS\<close> is \<^verbatim>\<open>-1\<close>: rotating \<^verbatim>\<open>T1\<close> at
  1000 returns a new token whose row expired a day before, and the returned plaintext
  does not validate at the time of the rotation nor later.
\<close>

theorem rotateRefreshToken_negative_lifetime_counterexample:
  "fst (rotateRefreshToken (\<lambda>x. x) (env_example (Some ''-1'') None) zero_bytes 1000 ''T1''
         owner_example ios_options token_store_example) = Inr uuid_zero
   \<and> expires_at (last (refresh_tokens (snd (rotateRefreshToken (\<lambda>x. x)
         (env_example (Some ''-1'') None) zero_bytes 1000 ''T1'' owner_example ios_options
         token_store_example)))) = - 86399000
   \<and> fst (validateRefreshToken (\<lambda>x. x) 1000 uuid_zero
           (snd (rotateRefreshToken (\<lambda>x. x) (env_example (Some ''-1'') None) zero_bytes 1000
                   ''T1'' owner_example ios_options token_store_example))) = None
   \<and> fst (validateRefreshToken (\<lambda>x. x) 2000 uuid_zero
           (snd (rotateRefreshToken (\<lambda>x. x) (env_example (Some ''-1'') None) zero_bytes 1000
                   ''T1'' owner_example ios_options token_store_example))) = None"
  by (simp add: rotateRefreshToken_def token_eval generate_eval parse_eval uuidv4_zero
        uuid_zero_def)

lemma validate_pair:
  "validateRefreshToken H now raw s = (fst (validateRefreshToken H now raw s), s)"
  by (simp add: validateRefreshToken_def Let_def split: option.splits)

lemma refresh_without_rotation:
  assumes "ROTATE_REFRESH_TOKENS env \<noteq> Some ''true''"
  shows "refresh H jwt env rnds now cookie bodyToken ip s =
     (let rawToken = or_else cookie bodyToken in
      if \<not> truthy rawToken then (refused ''No refresh token provided'', s)
      else
        case fst (validateRefreshToken H now (the rawToken) s) of
          None \<Rightarrow> (refused ''Invalid or expired refresh token'', s)
        | Some record \<Rightarrow>
            (case rt_owner record of
               None \<Rightarrow> (refused ''Token refresh failed'', s)
             | Some owner \<Rightarrow>
                 (case find (\<lambda>u. user_id u = user_id owner) (users s) of
                    None \<Rightarrow> (refused ''User not found'', s)
                  | Some u \<Rightarrow>
                      (case generateAccessToken jwt env (populate_role s u) of
                         Inl _ \<Rightarrow> (refused ''Token refresh failed'', s)
                       | Inr accessToken \<Rightarrow>
                           (\<lparr>response = Sent accessToken None, set_cookie = None\<rparr>,
                            s\<lparr>refresh_tokens :=
                                 update (\<lambda>r. rt_id r = rt_id (rt_row record))
                                   (\<lambda>r. r\<lparr>last_used_at := Some now\<rparr>)
                                   (refresh_tokens s)\<rparr>)))))"
  unfolding refresh_def
  by (subst validate_pair) (simp add: assms Let_def split: option.splits sum.splits)

text \<open>
  C10. \<^verbatim>\<open>validateRefreshToken\<close> returns the store it was given. In the \<^verbatim>\<open>refresh\<close>
  handler without rotation, the store changes only when the handler answers with an
  access token, and then exactly by the handler's own update of \<open>last_used_at\<close> on the
  validated row; when it answers \<^verbatim>\<open>unauthorized\<close> the store is as before.
\<close>

theorem validateRefreshToken_read_only:
  "snd (validateRefreshToken H now raw s) = s
   \<and> (ROTATE_REFRESH_TOKENS env \<noteq> Some ''true'' \<longrightarrow>
        (case fst (validateRefreshToken H now (the (or_else cookie bodyToken)) s) of
           None \<Rightarrow> snd (refresh H jwt env rnds now cookie bodyToken ip s) = s
         | Some record \<Rightarrow>
             (case response (fst (refresh H jwt env rnds now cookie bodyToken ip s)) of
                Unauthorized message \<Rightarrow> snd (refresh H jwt env rnds now cookie bodyToken ip s) = s
              | Sent accessToken refreshToken \<Rightarrow>
                  snd (refresh H jwt env rnds now cookie bodyToken ip s) =
                    s\<lparr>refresh_tokens :=
                         update (\<lambda>r. rt_id r = rt_id (rt_row record))
                           (\<lambda>r. r\<lparr>last_used_at := Some now\<rparr>)
                           (refresh_tokens s)\<rparr>)))"
proof (intro conjI impI)
  show "snd (validateRefreshToken H now raw s) = s"
    by (subst validate_pair) simp
next
  assume nr: "ROTATE_REFRESH_TOKENS env \<noteq> Some ''true''"
  show "case fst (validateRefreshToken H now (the (or_else cookie bodyToken)) s) of
           None \<Rightarrow> snd (refresh H jwt env rnds now cookie bodyToken ip s) = s
         | Some record \<Rightarrow>
             (case response (fst (refresh H jwt env rnds now cookie bodyToken ip s)) of
                Unauthorized message \<Rightarrow> snd (refresh H jwt env rnds now cookie bodyToken ip s) = s
              | Sent accessToken refreshToken \<Rightarrow>
                  snd (refresh H jwt env rnds now cookie bodyToken ip s) =
                    s\<lparr>refresh_tokens :=
                         update (\<lambda>r. rt_id r = rt_id (rt_row record))
                           (\<lambda>r. r\<lparr>last_used_at := Some now\<rparr>)
                           (refresh_tokens s)\<rparr>)"
    unfolding refresh_without_rotation [OF nr]
    by (simp add: Let_def refused_def split: option.splits sum.splits)
qed

text \<open>A refresh with \<^verbatim>\<open>T1\<close>: validation changes nothing, the handler touches row 1.\<close>

theorem validateRefreshToken_read_only_witness:
  "snd (validateRefreshToken (\<lambda>x. x) 1000 ''T1'' token_store_example) = token_store_example
   \<and> fst (validateRefreshToken (\<lambda>x. x) 1000 ''T1'' token_store_example)
       = Some \<lparr>rt_row = token_row_example 1 ''T1'' 1,
               rt_owner = Some (user_example 1 ''u@example.com'')\<rparr>
   \<and> refresh (\<lambda>x. x) jwt_example (env_example None None) zero_bytes 1000 (Some ''T1'') None None
        token_store_example =
       (\<lparr>response = Sent ''jwt'' None, set_cookie = None\<rparr>,
        token_store_example\<lparr>refresh_tokens :=
          [(token_row_example 1 ''T1'' 1)\<lparr>last_used_at := Some 1000\<rparr>,
           token_row_example 2 ''T2'' 2,
           (token_row_example 3 ''T3'' 1)
             \<lparr>revoked := True, revoked_at := Some 5, revoked_reason := Some Security\<rparr>]\<rparr>)"
proof -
  have nr: "ROTATE_REFRESH_TOKENS (env_example None None) \<noteq> Some ''true''"
    by (simp add: env_example_def)
  have v: "fst (validateRefreshToken (\<lambda>x. x) 1000 ''T1'' token_store_example)
       = Some \<lparr>rt_row = token_row_example 1 ''T1'' 1,
               rt_owner = Some (user_example 1 ''u@example.com'')\<rparr>"
    by (simp add: token_eval)
  have r: "fst (refresh (\<lambda>x. x) jwt_example (env_example None None) zero_bytes 1000 (Some ''T1'') None None
        token_store_example) = \<lparr>response = Sent ''jwt'' None, set_cookie = None\<rparr>"
    by (simp add: refresh_def token_eval or_else_def env_example_def generateAccessToken_def
          jwt_example_def populate_role_def)
  note t = validateRefreshToken_read_only [where H = "\<lambda>x. x" and now = 1000 and raw = "''T1''"
      and s = token_store_example and env = "env_example None None" and cookie = "Some ''T1''"
      and bodyToken = None and jwt = jwt_example and rnds = zero_bytes and ip = None]
  from t [THEN conjunct1] t [THEN conjunct2, THEN mp, OF nr] v r
  have "snd (validateRefreshToken (\<lambda>x. x) 1000 ''T1'' token_store_example) = token_store_example"
    and "snd (refresh (\<lambda>x. x) jwt_example (env_example None None) zero_bytes 1000 (Some ''T1'') None None
        token_store_example) =
        token_store_example\<lparr>refresh_tokens :=
          [(token_row_example 1 ''T1'' 1)\<lparr>last_used_at := Some 1000\<rparr>,
           token_row_example 2 ''T2'' 2,
           (token_row_example 3 ''T3'' 1)
             \<lparr>revoked := True, revoked_at := Some 5, revoked_reason := Some Security\<rparr>]\<rparr>"
    by (simp_all add: or_else_def token_store_example_def token_row_example_def)
  with v r show ?thesis by (simp add: prod_eq_iff)
qed

section \<open>Verification: the Google adapter\<close>

lemmas google_eval =
  google_validate_def google_claims_example_def tokeninfo_example_def google_env_def
  good_credentials_def Let_def

lemma google_validate_Inr_iff:
  "google_validate tokeninfo env now credentials = Inr info \<longleftrightarrow>
     (resp_ok (tokeninfo (gcred_idToken credentials))
      \<and> \<not> (truthy (GOOGLE_CLIENT_ID env) \<and>
             gc_aud (resp_json (tokeninfo (gcred_idToken credentials))) \<noteq> GOOGLE_CLIENT_ID env)
      \<and> gc_iss (resp_json (tokeninfo (gcred_idToken credentials)))
           \<in> {Some ''accounts.google.com'', Some ''https://accounts.google.com''}
      \<and> \<not> (case gc_exp (resp_json (tokeninfo (gcred_idToken credentials))) of
               None \<Rightarrow> False | Some e \<Rightarrow> now > e * 1000)
      \<and> info =
          \<lparr>gu_providerId = gc_sub (resp_json (tokeninfo (gcred_idToken credentials))),
           gu_email = gc_email (resp_json (tokeninfo (gcred_idToken credentials))),
           gu_name = gc_name (resp_json (tokeninfo (gcred_idToken credentials))),
           gu_picture = gc_picture (resp_json (tokeninfo (gcred_idToken credentials))),
           gu_emailVerified =
             (gc_email_verified (resp_json (tokeninfo (gcred_idToken credentials))) = JBool True \<or>
              gc_email_verified (resp_json (tokeninfo (gcred_idToken credentials)))
                = JString ''true'')\<rparr>)"
  unfolding google_validate_def Let_def
  by (simp only: sum.inject sum.distinct split: if_split) blast

text \<open>
  C7, as amended. A token the Google adapter accepts was answered \<^verbatim>\<open>ok\<close> by the
  endpoint; its \<open>aud\<close> equals \<^verbatim>\<open>GOOGLE_CLIENT_ID\<close> when that is configured (set and not
  empty); its \<open>iss\<close> is one of Google's two issuer strings; and its \<open>exp\<close>, when numeric,
  is not in the past. A token that violates one of these checks is rejected with an
  error and no identity is returned. With \<^verbatim>\<open>GOOGLE_CLIENT_ID\<close> unset or empty the audience
  is not checked.
\<close>

theorem google_validate_checks:
  "(\<forall>info. google_validate tokeninfo env now credentials = Inr info \<longrightarrow>
       resp_ok (tokeninfo (gcred_idToken credentials))
       \<and> (truthy (GOOGLE_CLIENT_ID env) \<longrightarrow>
            gc_aud (resp_json (tokeninfo (gcred_idToken credentials))) = GOOGLE_CLIENT_ID env)
       \<and> gc_iss (resp_json (tokeninfo (gcred_idToken credentials)))
            \<in> {Some ''accounts.google.com'', Some ''https://accounts.google.com''}
       \<and> (\<forall>e. gc_exp (resp_json (tokeninfo (gcred_idToken credentials))) = Some e
              \<longrightarrow> now \<le> e * 1000)
       \<and> gu_providerId info = gc_sub (resp_json (tokeninfo (gcred_idToken credentials)))
       \<and> gu_email info = gc_email (resp_json (tokeninfo (gcred_idToken credentials))))
   \<and> ((\<not> resp_ok (tokeninfo (gcred_idToken credentials))
        \<or> (truthy (GOOGLE_CLIENT_ID env) \<and>
            gc_aud (resp_json (tokeninfo (gcred_idToken credentials))) \<noteq> GOOGLE_CLIENT_ID env)
        \<or> gc_iss (resp_json (tokeninfo (gcred_idToken credentials)))
            \<notin> {Some ''accounts.google.com'', Some ''https://accounts.google.com''}
        \<or> (\<exists>e. gc_exp (resp_json (tokeninfo (gcred_idToken credentials))) = Some e
              \<and> now > e * 1000))
       \<longrightarrow> (\<exists>err. google_validate tokeninfo env now credentials = Inl err))"
proof (intro conjI allI impI)
  fix info assume ok: "google_validate tokeninfo env now credentials = Inr info"
  note c = ok [unfolded google_validate_Inr_iff]
  from c show "resp_ok (tokeninfo (gcred_idToken credentials))" by simp
  from c show "gc_iss (resp_json (tokeninfo (gcred_idToken credentials)))
            \<in> {Some ''accounts.google.com'', Some ''https://accounts.google.com''}" by simp
  from c show "gu_providerId info = gc_sub (resp_json (tokeninfo (gcred_idToken credentials)))"
    by simp
  from c show "gu_email info = gc_email (resp_json (tokeninfo (gcred_idToken credentials)))"
    by simp
  { assume "truthy (GOOGLE_CLIENT_ID env)"
    with c show "gc_aud (resp_json (tokeninfo (gcred_idToken credentials))) = GOOGLE_CLIENT_ID env"
      by blast }
  { fix e assume "gc_exp (resp_json (tokeninfo (gcred_idToken credentials))) = Some e"
    with c show "now \<le> e * 1000" by simp }
next
  assume bad: "\<not> resp_ok (tokeninfo (gcred_idToken credentials))
        \<or> (truthy (GOOGLE_CLIENT_ID env) \<and>
            gc_aud (resp_json (tokeninfo (gcred_idToken credentials))) \<noteq> GOOGLE_CLIENT_ID env)
        \<or> gc_iss (resp_json (tokeninfo (gcred_idToken credentials)))
            \<notin> {Some ''accounts.google.com'', Some ''https://accounts.google.com''}
        \<or> (\<exists>e. gc_exp (resp_json (tokeninfo (gcred_idToken credentials))) = Some e
              \<and> now > e * 1000)"
  have "\<not> (\<exists>info. google_validate tokeninfo env now credentials = Inr info)"
  proof
    assume "\<exists>info. google_validate tokeninfo env now credentials = Inr info"
    then obtain info where "google_validate tokeninfo env now credentials = Inr info" ..
    note c = this [unfolded google_validate_Inr_iff]
    from bad c show False by auto
  qed
  then show "\<exists>err. google_validate tokeninfo env now credentials = Inl err"
    by (cases "google_validate tokeninfo env now credentials") auto
qed

text \<open>One accepted token, and the same token under a wrong audience, late, and from a wrong issuer.\<close>

theorem google_validate_checks_witness:
  "google_validate (tokeninfo_example google_claims_example) (google_env (Some ''blog-client''))
      1000000 good_credentials =
     Inr \<lparr>gu_providerId = ''g-1'', gu_email = ''u@example.com'', gu_name = Some ''U'',
          gu_picture = None, gu_emailVerified = True\<rparr>
   \<and> gc_aud google_claims_example = Some ''blog-client''
   \<and> 1000000 \<le> (2000 :: int) * 1000
   \<and> google_validate (tokeninfo_example google_claims_example) (google_env (Some ''other-client''))
      1000000 good_credentials = Inl AudienceMismatch
   \<and> google_validate (tokeninfo_example google_claims_example) (google_env (Some ''blog-client''))
      2000001 good_credentials = Inl GoogleTokenExpired
   \<and> google_validate (tokeninfo_example (google_claims_example\<lparr>gc_iss := Some ''evil.example''\<rparr>))
      (google_env (Some ''blog-client'')) 1000000 good_credentials = Inl InvalidIssuer"
proof -
  have ok: "google_validate (tokeninfo_example google_claims_example) (google_env (Some ''blog-client''))
      1000000 good_credentials =
     Inr \<lparr>gu_providerId = ''g-1'', gu_email = ''u@example.com'', gu_name = Some ''U'',
          gu_picture = None, gu_emailVerified = True\<rparr>"
    by (simp add: google_eval)
  have configured: "truthy (GOOGLE_CLIENT_ID (google_env (Some ''blog-client'')))"
    by (simp add: google_env_def)
  have expired: "\<not> resp_ok (tokeninfo_example google_claims_example (gcred_idToken good_credentials))
        \<or> (truthy (GOOGLE_CLIENT_ID (google_env (Some ''blog-client''))) \<and>
            gc_aud (resp_json (tokeninfo_example google_claims_example (gcred_idToken good_credentials)))
              \<noteq> GOOGLE_CLIENT_ID (google_env (Some ''blog-client'')))
        \<or> gc_iss (resp_json (tokeninfo_example google_claims_example (gcred_idToken good_credentials)))
            \<notin> {Some ''accounts.google.com'', Some ''https://accounts.google.com''}
        \<or> (\<exists>e. gc_exp (resp_json (tokeninfo_example google_claims_example
                 (gcred_idToken good_credentials))) = Some e \<and> 2000001 > e * 1000)"
    by (simp add: google_eval)
  note t = google_validate_checks [where tokeninfo = "tokeninfo_example google_claims_example"
      and env = "google_env (Some ''blog-client'')" and credentials = good_credentials]
  note acc = t [where now = 1000000, THEN conjunct1, THEN spec, THEN mp, OF ok]
  note rej = t [where now = 2000001, THEN conjunct2, THEN mp, OF expired]
  from acc [THEN conjunct2, THEN conjunct1, THEN mp, OF configured] rej ok
  show ?thesis
    by (simp add: google_eval)
qed

text \<open>
  C7 as stated fails when no client identifier is configured: a token issued for
  another application is accepted.
\<close>

theorem google_validate_unconfigured_audience_counterexample:
  "google_validate (tokeninfo_example (google_claims_example\<lparr>gc_aud := Some ''another-app''\<rparr>))
      (google_env None) 1000000 good_credentials =
     Inr \<lparr>gu_providerId = ''g-1'', gu_email = ''u@example.com'', gu_name = Some ''U'',
          gu_picture = None, gu_emailVerified = True\<rparr>
   \<and> gc_aud (google_claims_example\<lparr>gc_aud := Some ''another-app''\<rparr>)
       \<noteq> GOOGLE_CLIENT_ID (google_env None)"
  by (simp add: google_eval)

section \<open>Verification: identity resolution\<close>

lemma findOrCreateUser_created:
  assumes "found_user options s = None"
  shows "findOrCreateUser options s =
           (populate_role s (created_user options s),
            s\<lparr>users := users s @ [created_user options s]\<rparr>)"
  using assms by (simp add: findOrCreateUser_def found_user_def Let_def)

lemma findOrCreateUser_found:
  assumes "found_user options s = Some user"
  shows "findOrCreateUser options s =
           (populate_role
              (s\<lparr>users := update (\<lambda>u. user_id u = user_id user) (login_data options user) (users s)\<rparr>)
              (login_data options user user),
            s\<lparr>users := update (\<lambda>u. user_id u = user_id user) (login_data options user) (users s)\<rparr>)"
  using assms by (simp add: findOrCreateUser_def found_user_def Let_def)

lemma found_user_None_iff:
  "found_user options s = None \<longleftrightarrow>
     (\<forall>u\<in>set (users s). \<not> where_provider options u \<and> \<not> where_email options u)"
proof (cases "find (where_provider options) (users s)")
  case None
  then have a: "\<forall>u\<in>set (users s). \<not> where_provider options u" by (auto simp: find_None_iff)
  have "found_user options s = find (where_email options) (users s)"
    by (simp add: found_user_def None)
  then have "found_user options s = None \<longleftrightarrow> (\<forall>u\<in>set (users s). \<not> where_email options u)"
    by (auto simp: find_None_iff)
  with a show ?thesis by blast
next
  case (Some u)
  from find_Some_mem [OF Some] Some show ?thesis by (auto simp: found_user_def)
qed

lemma found_user_SomeD:
  assumes "found_user options s = Some user"
  shows "user \<in> set (users s) \<and> (where_provider options user \<or> where_email options user)"
proof (cases "find (where_provider options) (users s)")
  case None
  with assms have "find (where_email options) (users s) = Some user" by (simp add: found_user_def)
  from find_Some_mem [OF this] show ?thesis by simp
next
  case (Some u)
  with assms have "u = user" by (simp add: found_user_def)
  with find_Some_mem [OF Some] show ?thesis by simp
qed

lemma length_update: "length (update wh f rows) = length rows"
  by (induction rows) simp_all

lemma login_data_fixed:
  "user_id (login_data options user u) = user_id u"
  "user_email (login_data options user u) = user_email u"
  "auth_provider (login_data options user u) = Some (opt_authProvider options)"
  "provider_id (login_data options user u) = Some (opt_providerId options)"
  by (simp_all add: login_data_def)

lemma findOrCreateUser_length:
  "length (users (snd (findOrCreateUser options s))) =
     length (users s) + (if found_user options s = None then 1 else 0)"
proof (cases "found_user options s")
  case None
  then show ?thesis by (simp add: findOrCreateUser_created)
next
  case (Some user)
  then show ?thesis by (simp add: findOrCreateUser_found length_update)
qed

lemma findOrCreateUser_user:
  "pu_user (fst (findOrCreateUser options s)) =
     (case found_user options s of
        None \<Rightarrow> created_user options s
      | Some user \<Rightarrow> login_data options user user)"
  by (cases "found_user options s")
     (simp_all add: findOrCreateUser_created findOrCreateUser_found populate_role_def)

lemma first_login_state:
  assumes di: "distinct (map user_id (users s))"
    and de: "distinct (map user_email (users s))"
    and hp: "\<forall>x\<in>set (users s). where_provider options x \<longrightarrow> user_email x = opt_email options"
    and res: "findOrCreateUser options s = (u1, s1)"
  shows "pu_user u1 \<in> set (users s1)
     \<and> user_email (pu_user u1) = opt_email options
     \<and> auth_provider (pu_user u1) = Some (opt_authProvider options)
     \<and> distinct (map user_id (users s1))
     \<and> distinct (map user_email (users s1))
     \<and> (\<forall>x\<in>set (users s1). x \<noteq> pu_user u1 \<longrightarrow> x \<in> set (users s))"
proof (cases "found_user options s")
  case None
  let ?c = "created_user options s"
  from res have u1: "pu_user u1 = ?c" and s1: "users s1 = users s @ [?c]"
    by (auto simp: findOrCreateUser_created [OF None] populate_role_def)
  from None have miss: "\<forall>u\<in>set (users s). \<not> where_email options u"
    by (simp add: found_user_None_iff)
  have e: "user_email ?c = opt_email options" and p: "auth_provider ?c = Some (opt_authProvider options)"
    and i: "user_id ?c = next_id (map user_id (users s))"
    by (simp_all add: created_user_def)
  have fresh_id: "user_id ?c \<notin> set (map user_id (users s))"
    using next_id_fresh [of "user_id ?c" "map user_id (users s)"] i by auto
  have fresh_email: "user_email ?c \<notin> set (map user_email (users s))"
  proof
    assume "user_email ?c \<in> set (map user_email (users s))"
    then obtain x where "x \<in> set (users s)" "user_email x = opt_email options"
      using e by auto
    with miss show False by (simp add: where_email_def)
  qed
  from di fresh_id have d1: "distinct (map user_id (users s1))" by (simp add: s1)
  from de fresh_email have d2: "distinct (map user_email (users s1))" by (simp add: s1)
  have others: "\<forall>x\<in>set (users s1). x \<noteq> pu_user u1 \<longrightarrow> x \<in> set (users s)"
    by (auto simp: s1 u1)
  have mem: "pu_user u1 \<in> set (users s1)" by (simp add: s1 u1)
  from mem e p d1 d2 others show ?thesis by (simp add: u1)
next
  case (Some user)
  let ?f = "login_data options user"
  let ?g = "\<lambda>x. if user_id x = user_id user then ?f x else x"
  note fu = found_user_SomeD [OF Some]
  from fu have uin: "user \<in> set (users s)" by simp
  from res have u1: "pu_user u1 = ?f user"
    and s1: "users s1 = update (\<lambda>u. user_id u = user_id user) ?f (users s)"
    by (auto simp: findOrCreateUser_found [OF Some] populate_role_def)
  have s1': "users s1 = map ?g (users s)"
    unfolding s1 by (rule update_by_key [OF di]) (simp add: login_data_fixed)
  have mail: "user_email user = opt_email options"
    using fu hp by (auto simp: where_email_def)
  have ids: "map user_id (users s1) = map user_id (users s)"
    unfolding s1 by (rule update_keys) (simp add: login_data_fixed)
  have mails: "map user_email (users s1) = map user_email (users s)"
    unfolding s1 by (rule update_keys) (simp add: login_data_fixed)
  have "?g user \<in> set (map ?g (users s))" using uin by (rule_tac imageI [of user "set (users s)" ?g, folded set_map])
  then have mem: "pu_user u1 \<in> set (users s1)" by (simp add: s1' u1)
  have others: "\<forall>x\<in>set (users s1). x \<noteq> pu_user u1 \<longrightarrow> x \<in> set (users s)"
  proof (intro ballI impI)
    fix x assume "x \<in> set (users s1)" and ne: "x \<noteq> pu_user u1"
    then obtain x0 where x0: "x0 \<in> set (users s)" "x = ?g x0" by (auto simp: s1')
    show "x \<in> set (users s)"
    proof (cases "user_id x0 = user_id user")
      case True
      have "x0 = user" by (rule distinct_key_eq [OF di x0(1) uin True])
      with x0(2) ne u1 show ?thesis by simp
    next
      case False
      with x0 show ?thesis by simp
    qed
  qed
  from mem mail others di de show ?thesis
    by (simp add: u1 ids mails login_data_fixed)
qed

lemma second_login_found:
  assumes d2: "distinct (map user_email (users s1))"
    and mem: "u \<in> set (users s1)"
    and mail: "user_email u = opt_email options"
    and prov: "auth_provider u \<noteq> Some (opt_authProvider options)"
    and others: "\<forall>x\<in>set (users s1). x \<noteq> u \<longrightarrow> where_provider options x \<longrightarrow> user_email x = opt_email options"
  shows "found_user options s1 = Some u"
proof -
  have "\<forall>x\<in>set (users s1). \<not> where_provider options x"
  proof (intro ballI notI)
    fix x assume x: "x \<in> set (users s1)" and w: "where_provider options x"
    show False
    proof (cases "x = u")
      case True
      with w prov show False by (simp add: where_provider_def)
    next
      case False
      with others x w have "user_email x = user_email u" by (simp add: mail)
      from distinct_key_eq [OF d2 x mem this] False show False by simp
    qed
  qed
  then have "find (where_provider options) (users s1) = None" by (auto simp: find_None_iff)
  moreover have "find (\<lambda>x. user_email x = user_email u) (users s1) = Some u"
    by (rule find_by_key_distinct [OF d2 mem])
  then have "find (where_email options) (users s1) = Some u"
    by (simp add: where_email_def [abs_def] mail)
  ultimately show ?thesis by (simp add: found_user_def)
qed

text \<open>
  C6, as amended. Take two successive logins that present the same email. The first
  creates a user exactly when both of its lookups miss (by provider and provider id,
  then by email), and otherwise resolves to an existing id and adds no row; the two
  logins together add at most one row. If moreover the providers differ, user ids and
  emails are unique, and every user already linked to the provider identity of either
  login is stored under the presented email, then the second login resolves to the user
  of the first and adds no row.
\<close>

theorem findOrCreateUser_converges:
  assumes "findOrCreateUser o1 s = (u1, s1)"
    and "findOrCreateUser o2 s1 = (u2, s2)"
    and "opt_email o2 = opt_email o1"
  shows "(if \<forall>u\<in>set (users s). \<not> where_provider o1 u \<and> \<not> where_email o1 u
          then users s1 = users s @ [created_user o1 s] \<and> pu_user u1 = created_user o1 s
          else map user_id (users s1) = map user_id (users s)
               \<and> user_id (pu_user u1) \<in> set (map user_id (users s)))
     \<and> length (users s2) \<le> length (users s) + 1
     \<and> (distinct (map user_id (users s)) \<and> distinct (map user_email (users s))
          \<and> opt_authProvider o2 \<noteq> opt_authProvider o1
          \<and> (\<forall>x\<in>set (users s). where_provider o1 x \<or> where_provider o2 x
                 \<longrightarrow> user_email x = opt_email o1)
        \<longrightarrow> user_id (pu_user u2) = user_id (pu_user u1)
            \<and> map user_id (users s2) = map user_id (users s1)
            \<and> user_email (pu_user u2) = opt_email o1
            \<and> auth_provider (pu_user u2) = Some (opt_authProvider o2))"
proof -
  have mechanism: "if \<forall>u\<in>set (users s). \<not> where_provider o1 u \<and> \<not> where_email o1 u
          then users s1 = users s @ [created_user o1 s] \<and> pu_user u1 = created_user o1 s
          else map user_id (users s1) = map user_id (users s)
               \<and> user_id (pu_user u1) \<in> set (map user_id (users s))"
  proof (cases "found_user o1 s")
    case None
    with assms(1) show ?thesis
      by (auto simp: findOrCreateUser_created found_user_None_iff [symmetric] populate_role_def)
  next
    case (Some user)
    from found_user_SomeD [OF Some] have uin: "user \<in> set (users s)" by simp
    from assms(1) have u1: "pu_user u1 = login_data o1 user user"
      and s1: "users s1 = update (\<lambda>u. user_id u = user_id user) (login_data o1 user) (users s)"
      by (auto simp: findOrCreateUser_found [OF Some] populate_role_def)
    have ids: "map user_id (users s1) = map user_id (users s)"
      unfolding s1 by (rule update_keys) (simp add: login_data_fixed)
    have "user_id (pu_user u1) \<in> set (map user_id (users s))"
      using uin by (simp add: u1 login_data_fixed)
    moreover have "\<not> (\<forall>u\<in>set (users s). \<not> where_provider o1 u \<and> \<not> where_email o1 u)"
      using Some by (simp add: found_user_None_iff [symmetric])
    ultimately show ?thesis using ids by auto
  qed
  have at_most_one: "length (users s2) \<le> length (users s) + 1"
  proof (cases "found_user o1 s")
    case None
    from assms(1) have s1: "users s1 = users s @ [created_user o1 s]"
      by (auto simp: findOrCreateUser_created [OF None])
    have "where_email o2 (created_user o1 s)"
      by (simp add: where_email_def created_user_def assms(3))
    then have "\<not> (\<forall>u\<in>set (users s1). \<not> where_provider o2 u \<and> \<not> where_email o2 u)"
      by (auto simp: s1)
    then have "found_user o2 s1 \<noteq> None" by (simp add: found_user_None_iff)
    with findOrCreateUser_length [of o2 s1] assms(2) have "length (users s2) = length (users s1)"
      by simp
    then show ?thesis by (simp add: s1)
  next
    case (Some user)
    with findOrCreateUser_length [of o1 s] assms(1) have "length (users s1) = length (users s)"
      by simp
    with findOrCreateUser_length [of o2 s1] assms(2) show ?thesis by simp
  qed
  have converge: "user_id (pu_user u2) = user_id (pu_user u1)
            \<and> map user_id (users s2) = map user_id (users s1)
            \<and> user_email (pu_user u2) = opt_email o1
            \<and> auth_provider (pu_user u2) = Some (opt_authProvider o2)"
    if h: "distinct (map user_id (users s)) \<and> distinct (map user_email (users s))
          \<and> opt_authProvider o2 \<noteq> opt_authProvider o1
          \<and> (\<forall>x\<in>set (users s). where_provider o1 x \<or> where_provider o2 x
                 \<longrightarrow> user_email x = opt_email o1)"
  proof -
  from h have hp: "\<forall>x\<in>set (users s). where_provider o1 x \<longrightarrow> user_email x = opt_email o1" by blast
  from h have di: "distinct (map user_id (users s))" and de: "distinct (map user_email (users s))"
    by simp_all
  note A = first_login_state [OF di de hp assms(1)]
  have others: "\<forall>x\<in>set (users s1). x \<noteq> pu_user u1 \<longrightarrow> where_provider o2 x
                  \<longrightarrow> user_email x = opt_email o2"
  proof (intro ballI impI)
    fix x assume "x \<in> set (users s1)" "x \<noteq> pu_user u1" and w: "where_provider o2 x"
    with A have "x \<in> set (users s)" by blast
    with h w show "user_email x = opt_email o2" by (simp add: assms(3))
  qed
  have prov: "auth_provider (pu_user u1) \<noteq> Some (opt_authProvider o2)"
    using A h by auto
  have mail: "user_email (pu_user u1) = opt_email o2" using A by (simp add: assms(3))
  have d1: "distinct (map user_email (users s1))" and mem: "pu_user u1 \<in> set (users s1)"
    using A by simp_all
  have found: "found_user o2 s1 = Some (pu_user u1)"
    by (rule second_login_found [OF d1 mem mail prov others])
  from assms(2) have u2: "pu_user u2 = login_data o2 (pu_user u1) (pu_user u1)"
    and s2: "users s2 = update (\<lambda>u. user_id u = user_id (pu_user u1)) (login_data o2 (pu_user u1)) (users s1)"
    by (auto simp: findOrCreateUser_found [OF found] populate_role_def)
  have ids: "map user_id (users s2) = map user_id (users s1)"
    unfolding s2 by (rule update_keys) (simp add: login_data_fixed)
  from u2 ids mail
  show ?thesis
    by (simp add: login_data_fixed assms(3))
  qed
  from mechanism at_most_one converge show ?thesis by blast
qed

lemmas resolver_eval =
  findOrCreateUser_def where_provider_def where_email_def created_user_def login_data_def
  populate_role_def generateUniqueUsername_def generateUniqueUsername_loop.simps
  username_base_def is_word_char_def next_id_def Let_def
  authenticated_role_def empty_store_def email_login_def google_login_def user_a_def
  google_user_old_def moved_store_def

text \<open>Email OTP, then Google, with \<^verbatim>\<open>a@example.com\<close>: one user, whose provider moves to Google.\<close>

theorem findOrCreateUser_converges_witness:
  "findOrCreateUser (email_login ''a@example.com'') empty_store =
     (\<lparr>pu_user = user_a Email ''a@example.com'' None, pu_role = Some authenticated_role\<rparr>,
      empty_store\<lparr>users := [user_a Email ''a@example.com'' None]\<rparr>)
   \<and> findOrCreateUser (google_login ''a@example.com'' ''g-1'')
        (empty_store\<lparr>users := [user_a Email ''a@example.com'' None]\<rparr>) =
     (\<lparr>pu_user = user_a Google ''g-1'' (Some ''A''), pu_role = Some authenticated_role\<rparr>,
      empty_store\<lparr>users := [user_a Google ''g-1'' (Some ''A'')]\<rparr>)
   \<and> user_id (user_a Google ''g-1'' (Some ''A'')) = user_id (user_a Email ''a@example.com'' None)
   \<and> length (users (empty_store\<lparr>users := [user_a Google ''g-1'' (Some ''A'')]\<rparr>))
       \<le> length (users empty_store) + 1"
proof -
  have l1: "findOrCreateUser (email_login ''a@example.com'') empty_store =
     (\<lparr>pu_user = user_a Email ''a@example.com'' None, pu_role = Some authenticated_role\<rparr>,
      empty_store\<lparr>users := [user_a Email ''a@example.com'' None]\<rparr>)"
    by (simp add: resolver_eval)
  have l2: "findOrCreateUser (google_login ''a@example.com'' ''g-1'')
        (empty_store\<lparr>users := [user_a Email ''a@example.com'' None]\<rparr>) =
     (\<lparr>pu_user = user_a Google ''g-1'' (Some ''A''), pu_role = Some authenticated_role\<rparr>,
      empty_store\<lparr>users := [user_a Google ''g-1'' (Some ''A'')]\<rparr>)"
    by (simp add: resolver_eval)
  have same: "opt_email (google_login ''a@example.com'' ''g-1'') = opt_email (email_login ''a@example.com'')"
    by (simp add: resolver_eval)
  have pre: "distinct (map user_id (users empty_store)) \<and> distinct (map user_email (users empty_store))
          \<and> opt_authProvider (google_login ''a@example.com'' ''g-1'')
               \<noteq> opt_authProvider (email_login ''a@example.com'')
          \<and> (\<forall>x\<in>set (users empty_store).
                 where_provider (email_login ''a@example.com'') x
                 \<or> where_provider (google_login ''a@example.com'' ''g-1'') x
                 \<longrightarrow> user_email x = opt_email (email_login ''a@example.com''))"
    by (simp add: resolver_eval)
  note t = findOrCreateUser_converges [OF l1 l2 same]
  from t [THEN conjunct2, THEN conjunct1] t [THEN conjunct2, THEN conjunct2, THEN mp, OF pre] l1 l2
  show ?thesis by simp
qed

text \<open>
  C6 as stated fails when the account linked to the Google identity is stored under an
  older email: the Google login with the new email resolves to user 1, the email login
  with the same email creates user 2.
\<close>

theorem findOrCreateUser_diverges_counterexample:
  "opt_email (google_login ''new@example.com'' ''g-1'') = opt_email (email_login ''new@example.com'')
   \<and> opt_authProvider (google_login ''new@example.com'' ''g-1'')
       \<noteq> opt_authProvider (email_login ''new@example.com'')
   \<and> user_id (pu_user (fst (findOrCreateUser (google_login ''new@example.com'' ''g-1'') moved_store))) = 1
   \<and> user_id (pu_user (fst (findOrCreateUser (email_login ''new@example.com'')
        (snd (findOrCreateUser (google_login ''new@example.com'' ''g-1'') moved_store))))) = 2
   \<and> map user_email (users (snd (findOrCreateUser (email_login ''new@example.com'')
        (snd (findOrCreateUser (google_login ''new@example.com'' ''g-1'') moved_store)))))
       = [''old@example.com'', ''new@example.com'']"
  by (simp add: resolver_eval)

end
